theory Spec2Isabelle
  imports Main
begin


section \<open>Python strings\<close>

text \<open>
  A Python \<open>str\<close> is a sequence of Unicode code points; it is modelled as the list of
  these code points. String literals of the source that are ASCII are written
  \<open>ascii ''...''\<close>, the Cyrillic and emoji ones as their code points.
\<close>

type_synonym pystr = "nat list"

definition ascii :: "string \<Rightarrow> pystr" where
  "ascii s = map of_char s"

text \<open>\<open>str.isspace\<close> of one character: the white space of \<open>str.strip()\<close>.\<close>

definition isspace :: "nat \<Rightarrow> bool" where
  "isspace c \<longleftrightarrow>
     (9 \<le> c \<and> c \<le> 13) \<or> (28 \<le> c \<and> c \<le> 32) \<or> c = 133 \<or> c = 160 \<or> c = 5760 \<or>
     (8192 \<le> c \<and> c \<le> 8202) \<or> c = 8232 \<or> c = 8233 \<or> c = 8239 \<or> c = 8287 \<or> c = 12288"

definition strip_with :: "(nat \<Rightarrow> bool) \<Rightarrow> pystr \<Rightarrow> pystr" where
  "strip_with sp s = rev (dropWhile sp (rev (dropWhile sp s)))"

definition strip :: "pystr \<Rightarrow> pystr" where
  "strip s = strip_with isspace s"

text \<open>\<open>s.startswith(p)\<close> and \<open>p in s\<close>.\<close>

definition startswith :: "pystr \<Rightarrow> pystr \<Rightarrow> bool" where
  "startswith p s \<longleftrightarrow> take (length p) s = p"

fun contains :: "pystr \<Rightarrow> pystr \<Rightarrow> bool" where
  "contains p [] = (p = [])"
| "contains p (c # cs) = (startswith p (c # cs) \<or> contains p cs)"

text \<open>
  \<open>s.replace(old, new)\<close>: every occurrence of \<open>old\<close>, found from the left and not
  overlapping an earlier one, is replaced. An empty \<open>old\<close> matches before every
  character and at the end.
\<close>

function replace_ne :: "pystr \<Rightarrow> pystr \<Rightarrow> pystr \<Rightarrow> pystr" where
  "replace_ne old new [] = []"
| "replace_ne old new (c # cs) =
     (if old \<noteq> [] \<and> startswith old (c # cs)
      then new @ replace_ne old new (drop (length old) (c # cs))
      else c # replace_ne old new cs)"
  by pat_completeness auto
termination
  by (relation "measure (\<lambda>(old, new, s). length s)") auto

definition replace :: "pystr \<Rightarrow> pystr \<Rightarrow> pystr \<Rightarrow> pystr" where
  "replace old new s =
     (if old = [] then new @ concat (map (\<lambda>c. c # new) s) else replace_ne old new s)"

text \<open>
  \<open>s.split(sep)\<close> for a separator that is not empty (the source splits at \<open>"/"\<close> and at
  \<open>"?"\<close> only): the pieces between the occurrences of \<open>sep\<close>, at least one piece.
  \<open>cur\<close> is the piece being read.
\<close>

function split_from :: "pystr \<Rightarrow> pystr \<Rightarrow> pystr \<Rightarrow> pystr list" where
  "split_from sep cur [] = [cur]"
| "split_from sep cur (c # cs) =
     (if sep \<noteq> [] \<and> startswith sep (c # cs)
      then cur # split_from sep [] (drop (length sep) (c # cs))
      else split_from sep (cur @ [c]) cs)"
  by pat_completeness auto
termination
  by (relation "measure (\<lambda>(sep, cur, s). length s)") auto

definition split :: "pystr \<Rightarrow> pystr \<Rightarrow> pystr list" where
  "split sep s = split_from sep [] s"

subsection \<open>\<open>int(s)\<close>\<close>

text \<open>
  \<open>int\<close> of a string, base ten: white space around, one optional sign, then decimal
  digits, where one underscore may stand between two digits. The digits are those of
  any script (the blocks of ten of Unicode 14.0, named by their zero), the white space
  is that of \<open>isspace\<close> without the four ASCII separators 28 to 31, and more than 4300
  digits are refused. \<open>None\<close> is \<open>ValueError\<close>.
\<close>

definition int_space :: "nat \<Rightarrow> bool" where
  "int_space c \<longleftrightarrow> isspace c \<and> \<not> (28 \<le> c \<and> c \<le> 31)"

definition digit_zeros :: "nat list" where
  "digit_zeros =
    [0x30, 0x660, 0x6F0, 0x7C0, 0x966, 0x9E6, 0xA66, 0xAE6, 0xB66, 0xBE6, 0xC66, 0xCE6,
     0xD66, 0xDE6, 0xE50, 0xED0, 0xF20, 0x1040, 0x1090, 0x17E0, 0x1810, 0x1946, 0x19D0,
     0x1A80, 0x1A90, 0x1B50, 0x1BB0, 0x1C40, 0x1C50, 0xA620, 0xA8D0, 0xA900, 0xA9D0,
     0xA9F0, 0xAA50, 0xABF0, 0xFF10, 0x104A0, 0x10D30, 0x11066, 0x110F0, 0x11136,
     0x111D0, 0x112F0, 0x11450, 0x114D0, 0x11650, 0x116C0, 0x11730, 0x118E0, 0x11950,
     0x11C50, 0x11D50, 0x11DA0, 0x16A60, 0x16AC0, 0x16B50, 0x1D7CE, 0x1D7D8, 0x1D7E2,
     0x1D7EC, 0x1D7F6, 0x1E140, 0x1E2F0, 0x1E950, 0x1FBF0]"

definition digit_value :: "nat \<Rightarrow> nat option" where
  "digit_value c =
     (case find (\<lambda>z. z \<le> c \<and> c < z + 10) digit_zeros of
        None \<Rightarrow> None
      | Some z \<Rightarrow> Some (c - z))"

fun int_digits :: "pystr \<Rightarrow> nat list option" where
  "int_digits [] = None"
| "int_digits [c] = map_option (\<lambda>d. [d]) (digit_value c)"
| "int_digits (c # u # cs) =
     (case digit_value c of
        None \<Rightarrow> None
      | Some d \<Rightarrow> map_option ((#) d) (int_digits (if u = 95 then cs else u # cs)))"

definition py_int :: "pystr \<Rightarrow> int option" where
  "py_int s =
     (case strip_with int_space s of
        [] \<Rightarrow> None
      | c # r \<Rightarrow>
          (case int_digits (if c = 45 \<or> c = 43 then r else c # r) of
             None \<Rightarrow> None
           | Some ds \<Rightarrow>
               if 4300 < length ds then None
               else Some ((if c = 45 then - 1 else 1) * int (foldl (\<lambda>a d. 10 * a + d) 0 ds))))"

section \<open>Status labels\<close>

text \<open>
  The presence status of a user, \<open>types.TypeUserStatus\<close>: the six classes the source
  imports, and \<open>UserStatusOther\<close> for an object of any other class. \<open>UserStatusOffline\<close>
  carries \<open>was_online\<close>, here the text \<open>was_online.strftime("%Y-%m-%d %H:%M:%S")\<close> gives.
\<close>

datatype user_status =
    UserStatusOnline
  | UserStatusOffline pystr
  | UserStatusRecently
  | UserStatusLastWeek
  | UserStatusLastMonth
  | UserStatusEmpty
  | UserStatusOther nat

definition label_hidden :: pystr where
  "label_hidden = [1057, 1082, 1088, 1099, 1090, 1086]"

definition label_online :: pystr where
  "label_online = [1054, 1085, 1083, 1072, 1081, 1085]"

definition label_offline :: pystr where
  "label_offline = [1054, 1092, 1092, 1083, 1072, 1081, 1085]"

definition label_recently :: pystr where
  "label_recently = [1053, 1077, 1076, 1072, 1074, 1085, 1086]"

definition label_last_week :: pystr where
  "label_last_week =
     [1041, 1099, 1083, 32, 1085, 1072, 32, 1101, 1090, 1086, 1081, 32,
      1085, 1077, 1076, 1077, 1083, 1077]"

definition label_last_month :: pystr where
  "label_last_month =
     [1041, 1099, 1083, 32, 1074, 32, 1101, 1090, 1086, 1084, 32,
      1084, 1077, 1089, 1103, 1094, 1077]"

definition label_long_ago :: pystr where
  "label_long_ago = [1044, 1072, 1074, 1085, 1086]"

fun get_user_status_text :: "user_status option \<Rightarrow> pystr" where
  "get_user_status_text None = label_hidden"
| "get_user_status_text (Some UserStatusOnline) = label_online"
| "get_user_status_text (Some (UserStatusOffline w)) = label_offline"
| "get_user_status_text (Some UserStatusRecently) = label_recently"
| "get_user_status_text (Some UserStatusLastWeek) = label_last_week"
| "get_user_status_text (Some UserStatusLastMonth) = label_last_month"
| "get_user_status_text (Some UserStatusEmpty) = label_hidden"
| "get_user_status_text (Some (UserStatusOther k)) = label_long_ago"

section \<open>Links\<close>

text \<open>\<open>MembersParserThread._clean_link\<close>.\<close>

definition clean_link :: "pystr \<Rightarrow> pystr" where
  "clean_link link0 =
     (let link1 = strip link0;
          link2 = replace (ascii ''t.me/'') [] (replace (ascii ''https://t.me/'') [] link1);
          link3 = (if startswith (ascii ''@'') link2 then drop 1 link2 else link2);
          link4 = (if contains (ascii ''/'') link3 then hd (split (ascii ''/'') link3) else link3);
          link5 = (if contains (ascii ''?'') link4 then hd (split (ascii ''?'') link4) else link4)
      in link5)"

text \<open>
  The post link of \<open>CommentsParserThread.parse\<close> and \<open>ReactionsParserThread.parse\<close>
  (the same lines in both): fewer than two parts is the invalid link, a second part
  that is no number makes \<open>int\<close> raise \<open>ValueError\<close>.
\<close>

datatype post_link = InvalidLink | NotANumber | PostLink pystr int

definition parse_post_link :: "pystr \<Rightarrow> post_link" where
  "parse_post_link link0 =
     (let link = replace (ascii ''t.me/'') [] (replace (ascii ''https://t.me/'') [] (strip link0));
          parts = split (ascii ''/'') link
      in if length parts < 2 then InvalidLink
         else (let channel_part = parts ! 0;
                   msg_id_str = hd (split (ascii ''?'') (parts ! 1))
               in case py_int msg_id_str of
                    None \<Rightarrow> NotANumber
                  | Some msg_id \<Rightarrow> PostLink channel_part msg_id))"

section \<open>Remote objects\<close>

text \<open>
  The objects the client library hands to the job, with the attributes the job reads.
  An optional attribute that is \<open>None\<close> is \<open>None\<close> here.
\<close>

record user =
  user_id :: int
  username :: "pystr option"
  first_name :: "pystr option"
  last_name :: "pystr option"
  phone :: "pystr option"
  status :: "user_status option"
  bot_flag :: bool
  verified :: bool
  scam :: bool
  premium :: bool

text \<open>
  What \<open>get_sender()\<close> resolves to: a user, or a channel or chat, which has no
  \<open>first_name\<close>.
\<close>

datatype sender = SenderUser user | SenderOther

text \<open>
  A message: \<open>id\<close>, \<open>text\<close>, \<open>message\<close>, the text \<open>date.strftime("%Y-%m-%d %H:%M:%S")\<close>
  gives, and \<open>type(media).__name__\<close> where there is a media.
\<close>

record message =
  m_id :: int
  m_text :: "pystr option"
  m_message :: "pystr option"
  m_date :: pystr
  m_media :: "pystr option"

text \<open>
  A resolved entity: whether it is a \<open>types.Channel\<close>, and its \<open>title\<close> where it has
  that attribute.
\<close>

record entity =
  is_channel :: bool
  title :: "pystr option"

datatype peer = PeerUser int | PeerOther

datatype reaction_kind = ReactionEmoji pystr | ReactionOther

record peer_reaction =
  peer_id :: peer
  reaction :: reaction_kind

record reactions_list =
  reactions :: "peer_reaction list"
  users :: "user list"

text \<open>The exceptions the job tells apart, and any other \<open>Exception\<close> with its text.\<close>

datatype exn =
    FloodWaitError int
  | SessionPasswordNeededError
  | ValueError
  | AttributeError
  | OtherError pystr

text \<open>
  An asynchronous iterator of the library, as the job sees it: the items it yields,
  then its end, or the exception it raises after them.
\<close>

datatype 'a iteration = Iteration "'a list" "exn option"

text \<open>
  What the user does with a prompt: \<open>Reply k s\<close> leaves \<open>s\<close> in the slot the job polls
  after \<open>k\<close> polls have found it empty, \<open>NoReply\<close> never fills it.
\<close>

datatype reply = Reply nat pystr | NoReply

section \<open>Signals and the trace of a job\<close>

datatype count_text = CountOf "int option" | CountUnknown

datatype status_text =
    InitClient
  | AuthorizedAs pystr
  | SendingCode pystr
  | FloodWait int
  | AuthSuccess
  | Need2FA
  | Auth2FASuccess
  | SearchGroup pystr
  | GroupTitle pystr
  | MembersCount count_text
  | ReceivedMembers nat
  | Processed nat nat
  | ChatTitle pystr
  | FetchingMessages
  | ReceivedMessages nat
  | ChannelPost pystr int
  | FetchingComments
  | ReceivedComments nat
  | ChannelChatPost pystr int

datatype error_text =
    SendCodeFailed exn
  | Bad2FAPassword exn
  | AuthError exn
  | GroupNotFound exn
  | InvalidPostLinkComments
  | InvalidPostLinkReactions
  | ReactionsFetchFailed exn
  | Critical exn

datatype prompt_text = AskPhone | AskCode pystr

datatype title_text = EntityTitle pystr | MessagesOf pystr | CommentsOf int | ReactionsOf int

datatype pyval = NoneV | IntV int | StrV pystr

type_synonym row = "(string \<times> pyval) list"

datatype signal =
    Progress status_text
  | ProgressValue int
  | Finished title_text "row list"
  | Error error_text
  | AuthCodeNeeded prompt_text
  | AuthPasswordNeeded

datatype call =
    NewClient
  | Connect
  | IsUserAuthorized
  | GetMe
  | SendCodeRequest pystr
  | SignInCode pystr pystr
  | SignInPassword "pystr option"
  | GetEntity pystr
  | GetFullChannel
  | IterAdmins
  | IterParticipants int
  | IterMessages int "int option"
  | GetSender int
  | GetReactionsList int int
  | Disconnect

datatype event = Signal signal | Call call

text \<open>
  The job: the signals it has emitted and the calls it has made to the client library,
  in order; how often it has read \<open>is_running\<close>; for each of these reads, in order, the
  length of the trace when it was made and the value read; and \<open>self.client\<close>, \<open>None\<close>
  before the client is made, then whether it is connected.
\<close>

record job =
  trace :: "event list"
  checks :: nat
  reads :: "(nat \<times> bool) list"
  client :: "bool option"

text \<open>
  The world around one job. Every answer is asked for at a time, the length of the
  trace when the call is made, so that a call made twice may be answered differently.
  \<open>stop_after = Some n\<close>: \<open>stop()\<close> is called after the job has read \<open>is_running\<close>
  \<open>n\<close> times, so that every later read gives \<open>False\<close>.
\<close>

record remote =
  stop_after :: "nat option"
  new_client :: "exn option"
  connect :: "nat \<Rightarrow> exn option"
  is_user_authorized :: "nat \<Rightarrow> exn + bool"
  get_me :: "nat \<Rightarrow> exn + user option"
  auth_code_reply :: "nat \<Rightarrow> reply"
  auth_password_reply :: "nat \<Rightarrow> reply"
  send_code_request :: "nat \<Rightarrow> pystr \<Rightarrow> exn option"
  sign_in_code :: "nat \<Rightarrow> pystr \<Rightarrow> pystr \<Rightarrow> exn option"
  sign_in_password :: "nat \<Rightarrow> pystr option \<Rightarrow> exn option"
  get_entity :: "nat \<Rightarrow> pystr \<Rightarrow> exn + entity"
  get_full_channel :: "nat \<Rightarrow> exn + int option"
  iter_admins :: "nat \<Rightarrow> user iteration"
  iter_participants :: "nat \<Rightarrow> int \<Rightarrow> user iteration"
  iter_messages :: "nat \<Rightarrow> int \<Rightarrow> int option \<Rightarrow> message iteration"
  get_sender :: "nat \<Rightarrow> message \<Rightarrow> exn + sender option"
  get_reactions_list :: "nat \<Rightarrow> int \<Rightarrow> int \<Rightarrow> exn + reactions_list"

definition now :: "job \<Rightarrow> nat" where
  "now st = length (trace st)"

definition emit :: "signal \<Rightarrow> job \<Rightarrow> job" where
  "emit s st = st\<lparr>trace := trace st @ [Signal s]\<rparr>"

definition called :: "call \<Rightarrow> job \<Rightarrow> job" where
  "called c st = st\<lparr>trace := trace st @ [Call c]\<rparr>"

text \<open>
  The value of \<open>self.is_running\<close> when the job has read it \<open>k\<close> times before, and one read
  of it.
\<close>

definition flag :: "remote \<Rightarrow> nat \<Rightarrow> bool" where
  "flag w k = (case stop_after w of None \<Rightarrow> True | Some n \<Rightarrow> k < n)"

definition is_running :: "remote \<Rightarrow> job \<Rightarrow> bool \<times> job" where
  "is_running w st =
     (flag w (checks st),
      st\<lparr>checks := Suc (checks st), reads := reads st @ [(now st, flag w (checks st))]\<rparr>)"

definition start :: job where
  "start = \<lparr>trace = [], checks = 0, reads = [], client = None\<rparr>"

text \<open>
  The outcome of a job is its first terminal signal; a job that ends without one has
  been stopped.
\<close>

datatype outcome = Completed title_text "row list" | Failed error_text | Cancelled

fun outcome_of :: "event list \<Rightarrow> outcome" where
  "outcome_of [] = Cancelled"
| "outcome_of (Signal (Finished t rs) # es) = Completed t rs"
| "outcome_of (Signal (Error e) # es) = Failed e"
| "outcome_of (e # es) = outcome_of es"

section \<open>Connecting and signing in\<close>

text \<open>
  \<open>TelegramParserThread.ensure_client\<close>; the result is the exception raised, if any.
  \<open>connect_client\<close> is its second statement.
\<close>

definition connect_client :: "remote \<Rightarrow> job \<Rightarrow> exn option \<times> job" where
  "connect_client w st =
     (if client st = Some True then (None, st)
      else (case connect w (now st) of
              Some e \<Rightarrow> (Some e, called Connect st)
            | None \<Rightarrow> (None, (called Connect st)\<lparr>client := Some True\<rparr>)))"

definition ensure_client :: "remote \<Rightarrow> job \<Rightarrow> exn option \<times> job" where
  "ensure_client w st =
     (case client st of
        None \<Rightarrow>
          (case new_client w of
             Some e \<Rightarrow> (Some e, called NewClient st)
           | None \<Rightarrow> connect_client w ((called NewClient st)\<lparr>client := Some False\<rparr>))
      | Some c \<Rightarrow> connect_client w st)"

text \<open>
  \<open>TelegramParserThread.cleanup\<close>. An exception of \<open>disconnect()\<close> leaves the thread
  with no signal, so the answer to the call is not asked for.
\<close>

definition cleanup :: "job \<Rightarrow> job" where
  "cleanup st =
     (if client st = Some True then (called Disconnect st)\<lparr>client := Some False\<rparr> else st)"

text \<open>The slot \<open>self.auth_code\<close> (or \<open>self.auth_password\<close>) at the poll \<open>j\<close> of a wait.\<close>

fun slot :: "reply \<Rightarrow> nat \<Rightarrow> pystr option" where
  "slot NoReply j = None"
| "slot (Reply k s) j = (if k \<le> j then Some s else None)"

text \<open>
  The loop \<open>while self.auth_code is None and self.is_running: await asyncio.sleep(0.1)\<close>,
  from its poll \<open>j\<close> on; it gives what the slot holds when the loop is left. With no
  reply and no stop the loop does not end: \<open>None\<close>.
\<close>

partial_function (option) wait_slot ::
  "remote \<Rightarrow> reply \<Rightarrow> nat \<Rightarrow> job \<Rightarrow> (pystr option \<times> job) option"
where
  "wait_slot w r j st =
     (case slot r j of
        Some s \<Rightarrow> Some (Some s, st)
      | None \<Rightarrow>
          (if fst (is_running w st) then wait_slot w r (Suc j) (snd (is_running w st))
           else Some (None, snd (is_running w st))))"

text \<open>
  The second half of \<open>ensure_auth\<close>, from the prompt for the code on. The result is the
  value returned, or the exception that leaves \<open>ensure_auth\<close>.
\<close>

definition sign_in_2fa :: "remote \<Rightarrow> job \<Rightarrow> ((exn + bool) \<times> job) option" where
  "sign_in_2fa w st0 =
     (let st1 = emit AuthPasswordNeeded (emit (Progress Need2FA) st0)
      in case wait_slot w (auth_password_reply w (now st1)) 0 st1 of
           None \<Rightarrow> None
         | Some (password, st2) \<Rightarrow>
             (if \<not> fst (is_running w st2) then Some (Inr False, snd (is_running w st2))
              else (let st3 = snd (is_running w st2);
                        st4 = called (SignInPassword password) st3
                    in case sign_in_password w (now st3) password of
                         None \<Rightarrow> Some (Inr True, emit (Progress Auth2FASuccess) st4)
                       | Some pwd_error \<Rightarrow>
                           Some (Inr False, emit (Error (Bad2FAPassword pwd_error)) st4))))"

definition ask_code_sign_in :: "remote \<Rightarrow> pystr \<Rightarrow> job \<Rightarrow> ((exn + bool) \<times> job) option" where
  "ask_code_sign_in w phone_no st0 =
     (let st1 = emit (AuthCodeNeeded (AskCode phone_no)) st0
      in case wait_slot w (auth_code_reply w (now st1)) 0 st1 of
           None \<Rightarrow> None
         | Some (auth_code, st2) \<Rightarrow>
             (if \<not> fst (is_running w st2) then Some (Inr False, snd (is_running w st2))
              else (let st3 = snd (is_running w st2)
                    in case auth_code of
                         None \<Rightarrow> Some (Inl AttributeError, st3)
                       | Some c \<Rightarrow>
                           (let code = strip c;
                                st4 = called (SignInCode phone_no code) st3
                            in case sign_in_code w (now st3) phone_no code of
                                 None \<Rightarrow> Some (Inr True, emit (Progress AuthSuccess) st4)
                               | Some SessionPasswordNeededError \<Rightarrow> sign_in_2fa w st4
                               | Some sign_err \<Rightarrow>
                                   Some (Inr False, emit (Error (AuthError sign_err)) st4)))))"

text \<open>
  \<open>TelegramParserThread.ensure_auth\<close>. \<open>auth_attempt\<close> is its body, run once: on
  \<open>FloodWaitError\<close> the source sleeps and returns what \<open>ensure_auth\<close> gives when run
  again, which is \<open>Again\<close> here, and \<open>ensure_auth\<close> runs the body until it returns.
  A server that answers \<open>FloodWaitError\<close> every time keeps the job in here for ever:
  \<open>None\<close>.
\<close>

datatype attempt = Returned "exn + bool" | Again

definition auth_attempt :: "remote \<Rightarrow> job \<Rightarrow> (attempt \<times> job) option" where
  "auth_attempt w st0 =
     (case ensure_client w st0 of
        (Some e, st1) \<Rightarrow> Some (Returned (Inl e), st1)
      | (None, st1) \<Rightarrow>
          (let st2 = called IsUserAuthorized st1
           in case is_user_authorized w (now st1) of
                Inl e \<Rightarrow> Some (Returned (Inl e), st2)
              | Inr True \<Rightarrow>
                  (let st3 = called GetMe st2
                   in case get_me w (now st2) of
                        Inl e \<Rightarrow> Some (Returned (Inl e), st3)
                      | Inr None \<Rightarrow> Some (Returned (Inl AttributeError), st3)
                      | Inr (Some me) \<Rightarrow>
                          Some (Returned (Inr True),
                                emit (Progress (AuthorizedAs
                                  (case first_name me of None \<Rightarrow> ascii ''None'' | Some n \<Rightarrow> n))) st3))
              | Inr False \<Rightarrow>
                  (let st3 = emit (AuthCodeNeeded AskPhone) st2
                   in case wait_slot w (auth_code_reply w (now st3)) 0 st3 of
                        None \<Rightarrow> None
                      | Some (auth_code, st4) \<Rightarrow>
                          (if \<not> fst (is_running w st4)
                           then Some (Returned (Inr False), snd (is_running w st4))
                           else (let st5 = snd (is_running w st4)
                                 in case auth_code of
                                      None \<Rightarrow> Some (Returned (Inl AttributeError), st5)
                                    | Some c \<Rightarrow>
                                        (let phone = strip c;
                                             st6 = emit (Progress (SendingCode phone)) st5;
                                             st7 = called (SendCodeRequest phone) st6
                                         in case send_code_request w (now st6) phone of
                                              None \<Rightarrow>
                                                map_option (\<lambda>(r, st8). (Returned r, st8))
                                                  (ask_code_sign_in w phone st7)
                                            | Some (FloodWaitError seconds) \<Rightarrow>
                                                Some (Again, emit (Progress (FloodWait seconds)) st7)
                                            | Some e \<Rightarrow>
                                                Some (Returned (Inr False),
                                                      emit (Error (SendCodeFailed e)) st7)))))))"

partial_function (option) ensure_auth ::
  "remote \<Rightarrow> job \<Rightarrow> ((exn + bool) \<times> job) option"
where
  "ensure_auth w st0 =
     (case auth_attempt w st0 of
        None \<Rightarrow> None
      | Some (Returned r, st1) \<Rightarrow> Some (r, st1)
      | Some (Again, st1) \<Rightarrow> ensure_auth w st1)"

section \<open>The four jobs\<close>

subsection \<open>What the jobs share\<close>

text \<open>
  The loop \<open>async for x in ...: if not self.is_running: break; buf.append(x); if
  len(buf) % 50 == 0: ...\<close> over the items an iterator yields. \<open>every50\<close> is what the
  job emits at every fiftieth item; the first result says whether the loop was left
  by \<open>break\<close>.
\<close>

fun fetch ::
  "remote \<Rightarrow> (nat \<Rightarrow> job \<Rightarrow> job) \<Rightarrow> 'a list \<Rightarrow> 'a list \<Rightarrow> job \<Rightarrow> bool \<times> 'a list \<times> job"
where
  "fetch w every50 [] buf st = (False, buf, st)"
| "fetch w every50 (x # xs) buf st =
     (if \<not> fst (is_running w st) then (True, buf, snd (is_running w st))
      else (let st1 = snd (is_running w st);
                buf1 = buf @ [x];
                st2 = (if length buf1 mod 50 = 0 then every50 (length buf1) st1 else st1)
            in fetch w every50 xs buf1 st2))"

text \<open>
  The loop over an iterator: when the items are used up and the iterator raises, the
  exception leaves the loop; after a \<open>break\<close> the iterator is not asked again.
\<close>

definition iterate ::
  "remote \<Rightarrow> (nat \<Rightarrow> job \<Rightarrow> job) \<Rightarrow> 'a iteration \<Rightarrow> job \<Rightarrow> (exn + 'a list) \<times> job"
where
  "iterate w every50 it st =
     (case it of
        Iteration xs raised \<Rightarrow>
          (case fetch w every50 xs [] st of
             (broke, buf, st1) \<Rightarrow>
               (case raised of
                  None \<Rightarrow> (Inr buf, st1)
                | Some e \<Rightarrow> if broke then (Inr buf, st1) else (Inl e, st1))))"

text \<open>\<open>if self.is_running: self.finished_signal.emit(title, parsed)\<close>.\<close>

definition finish :: "remote \<Rightarrow> title_text \<Rightarrow> row list \<Rightarrow> job \<Rightarrow> job" where
  "finish w t parsed st =
     (if fst (is_running w st) then emit (Finished t parsed) (snd (is_running w st))
      else snd (is_running w st))"

text \<open>
  \<open>except Exception as e: if self.is_running: self.error_signal.emit(...)\<close>, for the
  exception that left the \<open>try\<close> block, if any.
\<close>

definition on_exception :: "remote \<Rightarrow> exn option \<Rightarrow> job \<Rightarrow> job" where
  "on_exception w raised st =
     (case raised of
        None \<Rightarrow> st
      | Some e \<Rightarrow>
          (if fst (is_running w st) then emit (Error (Critical e)) (snd (is_running w st))
           else snd (is_running w st)))"

text \<open>
  The frame all four \<open>parse\<close> methods have: the first read of \<open>is_running\<close>, the signals
  \<open>first\<close> emitted before \<open>ensure_auth\<close> (one status line, or none in the reactions
  job), \<open>ensure_auth\<close>, then the job's own part \<open>collect\<close>, which gives the exception
  that leaves it, if any; then the \<open>except\<close> and the \<open>finally\<close> clause. The job starts
  with no client. \<open>None\<close>: the job never returns from \<open>ensure_auth\<close>.
\<close>

definition try_block ::
  "remote \<Rightarrow> signal list \<Rightarrow> (job \<Rightarrow> exn option \<times> job) \<Rightarrow> job \<Rightarrow> (exn option \<times> job) option"
where
  "try_block w first collect st0 =
     (if \<not> fst (is_running w st0) then Some (None, snd (is_running w st0))
      else (case ensure_auth w (fold emit first (snd (is_running w st0))) of
              None \<Rightarrow> None
            | Some (Inl e, st1) \<Rightarrow> Some (Some e, st1)
            | Some (Inr False, st1) \<Rightarrow> Some (None, st1)
            | Some (Inr True, st1) \<Rightarrow> Some (collect st1)))"

definition parse_with ::
  "remote \<Rightarrow> signal list \<Rightarrow> (job \<Rightarrow> exn option \<times> job) \<Rightarrow> job option"
where
  "parse_with w first collect =
     (case try_block w first collect start of
        None \<Rightarrow> None
      | Some (raised, st) \<Rightarrow> Some (cleanup (on_exception w raised st)))"

text \<open>\<open>x or ''\<close> for an optional text, and the value of an attribute that may be \<open>None\<close>.\<close>

definition or_empty :: "pystr option \<Rightarrow> pystr" where
  "or_empty x = (case x of None \<Rightarrow> [] | Some s \<Rightarrow> s)"

definition opt_val :: "pystr option \<Rightarrow> pyval" where
  "opt_val x = (case x of None \<Rightarrow> NoneV | Some s \<Rightarrow> StrV s)"

definition label_yes :: pystr where
  "label_yes = [1044, 1072]"

definition label_no :: pystr where
  "label_no = [1053, 1077, 1090]"

definition yes_no :: "bool \<Rightarrow> pyval" where
  "yes_no b = StrV (if b then label_yes else label_no)"

subsection \<open>\<open>MembersParserThread\<close>\<close>

definition member_row :: "int set \<Rightarrow> user \<Rightarrow> row" where
  "member_row admin_ids u =
     (let last_online_str =
            (case status u of Some (UserStatusOffline was_online) \<Rightarrow> was_online | _ \<Rightarrow> [])
      in [(''ID'', IntV (user_id u)),
          (''Username'', StrV (or_empty (username u))),
          (''First Name'', StrV (or_empty (first_name u))),
          (''Last Name'', StrV (or_empty (last_name u))),
          (''Phone'', StrV (or_empty (phone u))),
          (''Status'', StrV (get_user_status_text (status u))),
          (''Last Online'', StrV (if last_online_str = [] then label_hidden else last_online_str)),
          (''Is Bot'', yes_no (bot_flag u)),
          (''Is Verified'', yes_no (verified u)),
          (''Is Scam'', yes_no (scam u)),
          (''Is Premium'', yes_no (premium u)),
          (''Is Admin'', yes_no (user_id u \<in> admin_ids))])"

text \<open>The loop \<open>for idx, user in enumerate(members)\<close>, from \<open>idx\<close> on.\<close>

fun transform_members ::
  "remote \<Rightarrow> int set \<Rightarrow> nat \<Rightarrow> nat \<Rightarrow> user list \<Rightarrow> row list \<Rightarrow> job \<Rightarrow> row list \<times> job"
where
  "transform_members w admin_ids n_members idx [] parsed_data st = (parsed_data, st)"
| "transform_members w admin_ids n_members idx (u # us) parsed_data st =
     (if \<not> fst (is_running w st) then (parsed_data, snd (is_running w st))
      else (let st1 = snd (is_running w st);
                parsed1 = parsed_data @ [member_row admin_ids u];
                st2 = (if (idx + 1) mod 50 = 0
                       then emit (ProgressValue (int (idx + 1)))
                              (emit (Progress (Processed (idx + 1) n_members)) st1)
                       else st1)
            in transform_members w admin_ids n_members (idx + 1) us parsed1 st2))"

text \<open>
  The admin identifiers: the loop adds the identifier of every admin the iterator
  yields, and an exception of the iterator is passed over.
\<close>

definition collect_admin_ids :: "user iteration \<Rightarrow> int set" where
  "collect_admin_ids it = (case it of Iteration admins raised \<Rightarrow> set (map user_id admins))"

definition members_every50 :: "int \<Rightarrow> nat \<Rightarrow> job \<Rightarrow> job" where
  "members_every50 limit n st =
     emit (ProgressValue (min (int n) limit)) (emit (Progress (ReceivedMembers n)) st)"

definition members_collect :: "remote \<Rightarrow> pystr \<Rightarrow> int \<Rightarrow> job \<Rightarrow> exn option \<times> job" where
  "members_collect w link limit st0 =
     (if \<not> fst (is_running w st0) then (None, snd (is_running w st0))
      else
        (let chat_username = clean_link link;
             st1 = emit (Progress (SearchGroup chat_username)) (snd (is_running w st0));
             st2 = called (GetEntity chat_username) st1
         in case get_entity w (now st1) chat_username of
              Inl e \<Rightarrow> (None, emit (Error (GroupNotFound e)) st2)
            | Inr ent \<Rightarrow>
                (case (if is_channel ent
                       then (case get_full_channel w (now st2) of
                               Inl e \<Rightarrow> (Inl e, called GetFullChannel st2)
                             | Inr n \<Rightarrow> (Inr (CountOf n), called GetFullChannel st2))
                       else (Inr CountUnknown, st2)) of
                   (Inl e, st3) \<Rightarrow> (Some e, st3)
                 | (Inr members_count, st3) \<Rightarrow>
                     (let st4 = emit (Progress (MembersCount members_count))
                                  (emit (Progress (GroupTitle (or_empty (title ent)))) st3);
                          st5 = called IterAdmins st4;
                          admin_ids = collect_admin_ids (iter_admins w (now st4));
                          st6 = called (IterParticipants limit) st5
                      in case iterate w (members_every50 limit)
                                (iter_participants w (now st5) limit) st6 of
                           (Inl e, st7) \<Rightarrow> (Some e, st7)
                         | (Inr members, st7) \<Rightarrow>
                             (case transform_members w admin_ids (length members) 0 members [] st7 of
                                (parsed_data, st8) \<Rightarrow>
                                  (None,
                                   finish w (EntityTitle (or_empty (title ent))) parsed_data st8))))))"

definition members_parse :: "remote \<Rightarrow> pystr \<Rightarrow> int \<Rightarrow> job option" where
  "members_parse w link limit =
     parse_with w [Progress InitClient] (members_collect w link limit)"

subsection \<open>\<open>MessagesParserThread\<close>\<close>

text \<open>\<open>m.text or m.message or ''\<close>.\<close>

definition text_of :: "message \<Rightarrow> pystr" where
  "text_of m =
     (case m_text m of
        None \<Rightarrow> or_empty (m_message m)
      | Some t \<Rightarrow> if t = [] then or_empty (m_message m) else t)"

text \<open>
  The record of one message. A sender that is no user has no \<open>first_name\<close>, and reading
  it raises \<open>AttributeError\<close>.
\<close>

definition message_row :: "message \<Rightarrow> sender option \<Rightarrow> exn + row" where
  "message_row m sender =
     (case sender of
        None \<Rightarrow>
          Inr [(''Message ID'', IntV (m_id m)),
               (''Author ID'', StrV []),
               (''Username'', StrV []),
               (''First Name'', StrV []),
               (''Last Name'', StrV []),
               (''Date'', StrV (m_date m)),
               (''Text'', StrV (take 4096 (text_of m))),
               (''Media Type'', StrV (or_empty (m_media m)))]
      | Some SenderOther \<Rightarrow> Inl AttributeError
      | Some (SenderUser u) \<Rightarrow>
          Inr [(''Message ID'', IntV (m_id m)),
               (''Author ID'', IntV (user_id u)),
               (''Username'', opt_val (username u)),
               (''First Name'', opt_val (first_name u)),
               (''Last Name'', opt_val (last_name u)),
               (''Date'', StrV (m_date m)),
               (''Text'', StrV (take 4096 (text_of m))),
               (''Media Type'', StrV (or_empty (m_media m)))])"

text \<open>
  The loop \<open>for m in messages: sender = await m.get_sender(); parsed.append({...})\<close>,
  with \<open>mk_row\<close> the record of the job.
\<close>

fun resolve_senders ::
  "remote \<Rightarrow> (message \<Rightarrow> sender option \<Rightarrow> exn + row) \<Rightarrow> message list \<Rightarrow> row list \<Rightarrow> job
     \<Rightarrow> (exn + row list) \<times> job"
where
  "resolve_senders w mk_row [] parsed st = (Inr parsed, st)"
| "resolve_senders w mk_row (m # ms) parsed st =
     (let st1 = called (GetSender (m_id m)) st
      in case get_sender w (now st) m of
           Inl e \<Rightarrow> (Inl e, st1)
         | Inr sender \<Rightarrow>
             (case mk_row m sender of
                Inl e \<Rightarrow> (Inl e, st1)
              | Inr r \<Rightarrow> resolve_senders w mk_row ms (parsed @ [r]) st1))"

definition messages_every50 :: "nat \<Rightarrow> job \<Rightarrow> job" where
  "messages_every50 n st =
     emit (ProgressValue (int n)) (emit (Progress (ReceivedMessages n)) st)"

definition messages_collect :: "remote \<Rightarrow> pystr \<Rightarrow> int \<Rightarrow> job \<Rightarrow> exn option \<times> job" where
  "messages_collect w link limit st0 =
     (let chat_username = clean_link link;
          st1 = called (GetEntity chat_username) st0
      in case get_entity w (now st0) chat_username of
           Inl e \<Rightarrow> (Some e, st1)
         | Inr ent \<Rightarrow>
             (let name = (case title ent of None \<Rightarrow> chat_username | Some t \<Rightarrow> t);
                  st2 = emit (Progress FetchingMessages) (emit (Progress (ChatTitle name)) st1);
                  st3 = called (IterMessages limit None) st2
              in case iterate w messages_every50 (iter_messages w (now st2) limit None) st3 of
                   (Inl e, st4) \<Rightarrow> (Some e, st4)
                 | (Inr messages, st4) \<Rightarrow>
                     (case resolve_senders w message_row messages [] st4 of
                        (Inl e, st5) \<Rightarrow> (Some e, st5)
                      | (Inr parsed, st5) \<Rightarrow> (None, finish w (MessagesOf name) parsed st5))))"

definition messages_parse :: "remote \<Rightarrow> pystr \<Rightarrow> int \<Rightarrow> job option" where
  "messages_parse w link limit =
     parse_with w [Progress InitClient] (messages_collect w link limit)"

subsection \<open>\<open>CommentsParserThread\<close>\<close>

definition comment_row :: "message \<Rightarrow> sender option \<Rightarrow> exn + row" where
  "comment_row m sender =
     (case sender of
        None \<Rightarrow>
          Inr [(''Comment ID'', IntV (m_id m)),
               (''Author ID'', StrV []),
               (''Username'', StrV []),
               (''First Name'', StrV []),
               (''Last Name'', StrV []),
               (''Text'', StrV (text_of m)),
               (''Date'', StrV (m_date m))]
      | Some SenderOther \<Rightarrow> Inl AttributeError
      | Some (SenderUser u) \<Rightarrow>
          Inr [(''Comment ID'', IntV (m_id m)),
               (''Author ID'', IntV (user_id u)),
               (''Username'', opt_val (username u)),
               (''First Name'', opt_val (first_name u)),
               (''Last Name'', opt_val (last_name u)),
               (''Text'', StrV (text_of m)),
               (''Date'', StrV (m_date m))])"

definition comments_every50 :: "int \<Rightarrow> nat \<Rightarrow> job \<Rightarrow> job" where
  "comments_every50 limit n st =
     emit (ProgressValue (min (int n) limit)) (emit (Progress (ReceivedComments n)) st)"

definition comments_collect :: "remote \<Rightarrow> pystr \<Rightarrow> int \<Rightarrow> job \<Rightarrow> exn option \<times> job" where
  "comments_collect w link limit st0 =
     (case parse_post_link link of
        InvalidLink \<Rightarrow> (None, emit (Error InvalidPostLinkComments) st0)
      | NotANumber \<Rightarrow> (Some ValueError, st0)
      | PostLink channel_part msg_id \<Rightarrow>
          (let st1 = called (GetEntity channel_part) st0
           in case get_entity w (now st0) channel_part of
                Inl e \<Rightarrow> (Some e, st1)
              | Inr ent \<Rightarrow>
                  (let name = (case title ent of None \<Rightarrow> channel_part | Some t \<Rightarrow> t);
                       st2 = emit (Progress FetchingComments)
                               (emit (Progress (ChannelPost name msg_id)) st1);
                       st3 = called (IterMessages limit (Some msg_id)) st2
                   in case iterate w (comments_every50 limit)
                             (iter_messages w (now st2) limit (Some msg_id)) st3 of
                        (Inl e, st4) \<Rightarrow> (Some e, st4)
                      | (Inr comments, st4) \<Rightarrow>
                          (case resolve_senders w comment_row comments [] st4 of
                             (Inl e, st5) \<Rightarrow> (Some e, st5)
                           | (Inr parsed, st5) \<Rightarrow>
                               (None, finish w (CommentsOf msg_id) parsed st5)))))"

definition comments_parse :: "remote \<Rightarrow> pystr \<Rightarrow> int \<Rightarrow> job option" where
  "comments_parse w link limit =
     parse_with w [Progress InitClient] (comments_collect w link limit)"

subsection \<open>\<open>ReactionsParserThread\<close>\<close>

text \<open>
  \<open>next((r.reaction.emoticon for r in response.reactions if r.peer_id.user_id ==
  user.id), '...')\<close>: a peer that is no user has no \<open>user_id\<close>, a reaction that is no
  plain emoji has no \<open>emoticon\<close>; the default is the puzzle piece.
\<close>

fun find_reaction :: "peer_reaction list \<Rightarrow> int \<Rightarrow> exn + pystr" where
  "find_reaction [] uid = Inr [129513]"
| "find_reaction (r # rs) uid =
     (case peer_id r of
        PeerOther \<Rightarrow> Inl AttributeError
      | PeerUser p \<Rightarrow>
          if p = uid
          then (case reaction r of ReactionEmoji e \<Rightarrow> Inr e | ReactionOther \<Rightarrow> Inl AttributeError)
          else find_reaction rs uid)"

definition reaction_row :: "pystr \<Rightarrow> user \<Rightarrow> row" where
  "reaction_row emoji u =
     [(''Emoji'', StrV emoji),
      (''User ID'', IntV (user_id u)),
      (''Username'', StrV (or_empty (username u))),
      (''First Name'', StrV (or_empty (first_name u))),
      (''Last Name'', StrV (or_empty (last_name u)))]"

text \<open>The loop \<open>for user in response.users\<close>, with its \<open>break\<close> after the append.\<close>

fun reaction_rows :: "int \<Rightarrow> peer_reaction list \<Rightarrow> user list \<Rightarrow> row list \<Rightarrow> exn + row list" where
  "reaction_rows limit rs [] parsed = Inr parsed"
| "reaction_rows limit rs (u # us) parsed =
     (case find_reaction rs (user_id u) of
        Inl e \<Rightarrow> Inl e
      | Inr emoji \<Rightarrow>
          (let parsed1 = parsed @ [reaction_row emoji u]
           in if limit \<le> int (length parsed1) then Inr parsed1
              else reaction_rows limit rs us parsed1))"

definition reactions_collect :: "remote \<Rightarrow> pystr \<Rightarrow> int \<Rightarrow> job \<Rightarrow> exn option \<times> job" where
  "reactions_collect w link limit st0 =
     (case parse_post_link link of
        InvalidLink \<Rightarrow> (None, emit (Error InvalidPostLinkReactions) st0)
      | NotANumber \<Rightarrow> (Some ValueError, st0)
      | PostLink channel_part msg_id \<Rightarrow>
          (let st1 = called (GetEntity channel_part) st0
           in case get_entity w (now st0) channel_part of
                Inl e \<Rightarrow> (Some e, st1)
              | Inr ent \<Rightarrow>
                  (let name = (case title ent of None \<Rightarrow> channel_part | Some t \<Rightarrow> t);
                       st2 = emit (Progress (ChannelChatPost name msg_id)) st1;
                       st3 = called (GetReactionsList msg_id limit) st2
                   in case get_reactions_list w (now st2) msg_id limit of
                        Inl e \<Rightarrow> (None, emit (Error (ReactionsFetchFailed e)) st3)
                      | Inr response \<Rightarrow>
                          (case reaction_rows limit (reactions response) (users response) [] of
                             Inl e \<Rightarrow> (Some e, st3)
                           | Inr parsed \<Rightarrow>
                               (None, finish w (ReactionsOf msg_id) parsed st3)))))"

definition reactions_parse :: "remote \<Rightarrow> pystr \<Rightarrow> int \<Rightarrow> job option" where
  "reactions_parse w link limit = parse_with w [] (reactions_collect w link limit)"

section \<open>Predicates on jobs and example worlds\<close>

text \<open>
  What the theorems below are stated with: predicates on the trace and the state of a
  job, and some worlds, with the jobs as they end in them.
\<close>

text \<open>The terminal signals: \<open>finished_signal\<close> and \<open>error_signal\<close>.\<close>

fun terminal :: "event \<Rightarrow> bool" where
  "terminal (Signal (Finished t rs)) = True"
| "terminal (Signal (Error e)) = True"
| "terminal e = False"

text \<open>The job has emitted no terminal signal so far.\<close>

definition silent :: "job \<Rightarrow> bool" where
  "silent st \<longleftrightarrow> outcome_of (trace st) = Cancelled"

text \<open>Every read of \<open>is_running\<close> so far has given \<open>True\<close>.\<close>

definition unstopped :: "remote \<Rightarrow> job \<Rightarrow> bool" where
  "unstopped w st \<longleftrightarrow> (case stop_after w of None \<Rightarrow> True | Some n \<Rightarrow> checks st \<le> n)"

text \<open>
  What holds of a job all along: if it has emitted a terminal signal, it has not seen
  the stop.
\<close>

definition settled :: "remote \<Rightarrow> job \<Rightarrow> bool" where
  "settled w st \<longleftrightarrow> silent st \<or> unstopped w st"

text \<open>
  What holds when \<open>ensure_auth\<close> is left: with an exception or with \<open>True\<close> nothing
  terminal has been emitted, and with \<open>True\<close> the stop has not been seen.
\<close>

definition auth_post :: "remote \<Rightarrow> exn + bool \<Rightarrow> job \<Rightarrow> bool" where
  "auth_post w r st \<longleftrightarrow>
     (case r of
        Inl e \<Rightarrow> silent st
      | Inr True \<Rightarrow> silent st \<and> unstopped w st
      | Inr False \<Rightarrow> settled w st)"


text \<open>A user, an entity that is no channel, and a world with a stored session that is
  authorized for the user, in which every call succeeds and every iterator and the
  reactions response are empty.\<close>

definition bob :: user where
  "bob = \<lparr>user_id = 7, username = Some (ascii ''bob''), first_name = Some (ascii ''Bob''),
          last_name = None, phone = None, status = None, bot_flag = False, verified = False,
          scam = False, premium = False\<rparr>"

definition club :: entity where
  "club = \<lparr>is_channel = False, title = Some (ascii ''Club'')\<rparr>"

definition signed_in :: remote where
  "signed_in =
     \<lparr>stop_after = None, new_client = None, connect = (\<lambda>t. None),
      is_user_authorized = (\<lambda>t. Inr True), get_me = (\<lambda>t. Inr (Some bob)),
      auth_code_reply = (\<lambda>t. NoReply), auth_password_reply = (\<lambda>t. NoReply),
      send_code_request = (\<lambda>t p. None), sign_in_code = (\<lambda>t p c. None),
      sign_in_password = (\<lambda>t p. None), get_entity = (\<lambda>t h. Inr club),
      get_full_channel = (\<lambda>t. Inr None), iter_admins = (\<lambda>t. Iteration [] None),
      iter_participants = (\<lambda>t l. Iteration [] None),
      iter_messages = (\<lambda>t l r. Iteration [] None), get_sender = (\<lambda>t m. Inr None),
      get_reactions_list = (\<lambda>t i l. Inr \<lparr>reactions = [], users = []\<rparr>)\<rparr>"

text \<open>What \<open>ensure_auth\<close> adds to the trace in that world.\<close>

definition greeted :: "event list" where
  "greeted = [Call NewClient, Call Connect, Call IsUserAuthorized, Call GetMe,
              Signal (Progress (AuthorizedAs (ascii ''Bob'')))]"

text \<open>
  The events that belong to the part of a job after \<open>ensure_auth\<close>: the calls that
  resolve and fetch, \<open>finished_signal\<close>, and the two reports of an invalid post link.
\<close>

fun past_auth :: "event \<Rightarrow> bool" where
  "past_auth (Call (GetEntity h)) = True"
| "past_auth (Call GetFullChannel) = True"
| "past_auth (Call IterAdmins) = True"
| "past_auth (Call (IterParticipants l)) = True"
| "past_auth (Call (IterMessages l r)) = True"
| "past_auth (Call (GetSender i)) = True"
| "past_auth (Call (GetReactionsList i l)) = True"
| "past_auth (Signal (Finished t rs)) = True"
| "past_auth (Signal (Error InvalidPostLinkComments)) = True"
| "past_auth (Signal (Error InvalidPostLinkReactions)) = True"
| "past_auth e = False"

text \<open>None of them is in the trace.\<close>

definition before_collect :: "job \<Rightarrow> bool" where
  "before_collect st \<longleftrightarrow> (\<forall>e\<in>set (trace st). \<not> past_auth e)"

text \<open>A client that is connected has been connected by a call in the trace.\<close>

definition connected_by_call :: "job \<Rightarrow> bool" where
  "connected_by_call st \<longleftrightarrow> (client st = Some True \<longrightarrow> Call Connect \<in> set (trace st))"

text \<open>The client is connected, and the trace has the call that connected it and the call
  that asked whether the session is authorized.\<close>

definition signed_in_by_call :: "job \<Rightarrow> bool" where
  "signed_in_by_call st \<longleftrightarrow>
     client st = Some True \<and> Call Connect \<in> set (trace st) \<and>
     Call IsUserAuthorized \<in> set (trace st)"

text \<open>
  What the steps of signing in keep: no event of the later part comes, the client is as
  it was, and what is in the trace stays there.
\<close>

definition auth_keeps :: "job \<Rightarrow> job \<Rightarrow> bool" where
  "auth_keeps st0 st' \<longleftrightarrow>
     (before_collect st0 \<longrightarrow> before_collect st') \<and> client st' = client st0 \<and>
     set (trace st0) \<subseteq> set (trace st')"

text \<open>The same for one run of the body of \<open>ensure_auth\<close>, which may connect the client.\<close>

definition attempt_order :: "job \<Rightarrow> job \<Rightarrow> bool" where
  "attempt_order st0 st' \<longleftrightarrow>
     (before_collect st0 \<longrightarrow> before_collect st') \<and> set (trace st0) \<subseteq> set (trace st') \<and>
     connected_by_call st'"



text \<open>The comments job and the reactions job as they end on the link \<open>mychannel\<close>.\<close>

definition refused_comments :: job where
  "refused_comments =
     \<lparr>trace = Signal (Progress InitClient) # greeted @
        [Signal (Error InvalidPostLinkComments), Call Disconnect],
      checks = 1, reads = [(0, True)], client = Some False\<rparr>"

definition refused_reactions :: job where
  "refused_reactions =
     \<lparr>trace = greeted @ [Signal (Error InvalidPostLinkReactions), Call Disconnect],
      checks = 1, reads = [(0, True)], client = Some False\<rparr>"

text \<open>The prompts: \<open>auth_code_needed\<close> (phone or code) and \<open>auth_password_needed\<close>.\<close>

fun prompt :: "event \<Rightarrow> bool" where
  "prompt (Signal (AuthCodeNeeded p)) = True"
| "prompt (Signal AuthPasswordNeeded) = True"
| "prompt e = False"

text \<open>A world in which the group of the link cannot be found.\<close>

definition nowhere :: remote where
  "nowhere = signed_in\<lparr>get_entity := (\<lambda>t h. Inl (OtherError (ascii ''not found'')))\<rparr>"

text \<open>A world in which the server lists one user for the reactions of the post.\<close>

definition one_reactor :: remote where
  "one_reactor =
     signed_in\<lparr>get_reactions_list := (\<lambda>t i l. Inr \<lparr>reactions = [], users = [bob]\<rparr>)\<rparr>"

text \<open>
  A world in which the iterator of the admins yields one admin, the user 7, and then
  raises, and in which this user is the one member of the group.
\<close>

definition admins_break :: remote where
  "admins_break =
     signed_in\<lparr>iter_admins := (\<lambda>t. Iteration [bob] (Some (OtherError (ascii ''flood'')))),
               iter_participants := (\<lambda>t l. Iteration [bob] None)\<rparr>"









text \<open>
  A second user, and a world in which the server lists both users for the reactions of
  the post.
\<close>

definition ann :: user where
  "ann = \<lparr>user_id = 8, username = None, first_name = Some (ascii ''Ann''),
          last_name = None, phone = None, status = None, bot_flag = False, verified = False,
          scam = False, premium = False\<rparr>"

definition two_reactors :: remote where
  "two_reactors =
     signed_in\<lparr>get_reactions_list := (\<lambda>t i l. Inr \<lparr>reactions = [], users = [bob, ann]\<rparr>)\<rparr>"

section \<open>Lemmas\<close>

subsection \<open>Strings\<close>

lemma ascii_slash: "ascii ''/'' = [47]" by (simp add: ascii_def)

lemma ascii_quest: "ascii ''?'' = [63]" by (simp add: ascii_def)

lemma ascii_at: "ascii ''@'' = [64]" by (simp add: ascii_def)

lemma ascii_tme: "ascii ''t.me/'' = [116, 46, 109, 101, 47]" by (simp add: ascii_def)

lemma ascii_https_tme:
  "ascii ''https://t.me/'' = [104, 116, 116, 112, 115, 58, 47, 47, 116, 46, 109, 101, 47]"
  by (simp add: ascii_def)

lemma startswith_set: "startswith p s \<Longrightarrow> set p \<subseteq> set s"
  unfolding startswith_def by (metis set_take_subset)

lemma replace_ne_absent: "c \<in> set old \<Longrightarrow> c \<notin> set s \<Longrightarrow> replace_ne old new s = s"
proof (induction s)
  case Nil
  then show ?case by simp
next
  case (Cons a s)
  from Cons.prems have "\<not> startswith old (a # s)"
    using startswith_set by blast
  with Cons show ?case by simp
qed

lemma replace_absent: "c \<in> set old \<Longrightarrow> c \<notin> set s \<Longrightarrow> replace old new s = s"
  by (auto simp: replace_def replace_ne_absent)

lemma contains_single: "contains [c] s \<longleftrightarrow> c \<in> set s"
  by (induction s) (auto simp: startswith_def)

lemma split_from_ne: "split_from sep cur s \<noteq> []"
  by (induction sep cur s rule: split_from.induct) auto

lemma hd_split_from_single:
  "c \<notin> set cur \<Longrightarrow>
     c \<notin> set (hd (split_from [c] cur s)) \<and>
     set (hd (split_from [c] cur s)) \<subseteq> set cur \<union> set s"
proof (induction s arbitrary: cur)
  case Nil
  then show ?case by simp
next
  case (Cons a s)
  show ?case
  proof (cases "a = c")
    case True
    with Cons.prems show ?thesis by (auto simp: startswith_def)
  next
    case False
    with Cons.prems have "c \<notin> set (cur @ [a])" by simp
    from Cons.IH[OF this] False show ?thesis by (auto simp: startswith_def)
  qed
qed

lemma hd_split_single:
  "c \<notin> set (hd (split [c] s))" "set (hd (split [c] s)) \<subseteq> set s"
  using hd_split_from_single[of c "[]" s] by (auto simp: split_def)

lemma clean_link_no_sep: "47 \<notin> set (clean_link s) \<and> 63 \<notin> set (clean_link s)"
proof -
  define l3 where
    "l3 = (let link2 = replace (ascii ''t.me/'') [] (replace (ascii ''https://t.me/'') [] (strip s))
           in if startswith (ascii ''@'') link2 then drop 1 link2 else link2)"
  define l4 where "l4 = (if contains (ascii ''/'') l3 then hd (split (ascii ''/'') l3) else l3)"
  have c: "clean_link s = (if contains (ascii ''?'') l4 then hd (split (ascii ''?'') l4) else l4)"
    by (simp add: clean_link_def l3_def l4_def Let_def)
  have l4: "47 \<notin> set l4"
    using hd_split_single(1)[of 47 l3] by (auto simp: l4_def ascii_slash contains_single)
  show ?thesis
    using l4 hd_split_single[of 63 l4] by (auto simp: c ascii_quest contains_single)
qed

lemma clean_link_fixed:
  assumes "strip t = t" "\<not> startswith (ascii ''@'') t" "47 \<notin> set t" "63 \<notin> set t"
  shows "clean_link t = t"
proof -
  have r: "replace (ascii ''t.me/'') [] (replace (ascii ''https://t.me/'') [] t) = t"
    using assms(3) by (simp add: replace_absent[of 47] ascii_tme ascii_https_tme)
  show ?thesis
    using assms by (simp add: clean_link_def r ascii_slash ascii_quest contains_single)
qed

lemma dropWhile_same_length: "length (dropWhile P xs) = length xs \<Longrightarrow> dropWhile P xs = xs"
proof -
  assume a: "length (dropWhile P xs) = length xs"
  have "length (takeWhile P xs) + length (dropWhile P xs) = length xs"
    by (metis length_append takeWhile_dropWhile_id)
  with a have "takeWhile P xs = []"
    by simp
  then show ?thesis
    by (metis append_Nil takeWhile_dropWhile_id)
qed

lemma length_strip_with: "length (strip_with sp s) \<le> length (dropWhile sp s)"
  "length (dropWhile sp s) \<le> length s"
  using length_dropWhile_le[of sp "rev (dropWhile sp s)"] length_dropWhile_le[of sp s]
  by (simp_all add: strip_with_def)

lemma strip_with_same_length:
  assumes "length (strip_with sp s) = length s"
  shows "strip_with sp s = s"
proof -
  from assms length_strip_with[of sp s]
  have a: "length (dropWhile sp s) = length s"
    and b: "length (strip_with sp s) = length (dropWhile sp s)"
    by simp_all
  from a have c: "dropWhile sp s = s"
    by (rule dropWhile_same_length)
  from b have "length (dropWhile sp (rev s)) = length (rev s)"
    by (simp add: strip_with_def c)
  then have "dropWhile sp (rev s) = rev s"
    by (rule dropWhile_same_length)
  then show ?thesis
    by (simp add: strip_with_def c)
qed

lemma set_strip_with: "set (strip_with sp s) \<subseteq> set s"
proof -
  have "set (dropWhile sp (rev (dropWhile sp s))) \<subseteq> set (rev (dropWhile sp s))"
    by (meson set_dropWhileD subsetI)
  moreover have "set (dropWhile sp s) \<subseteq> set s"
    by (meson set_dropWhileD subsetI)
  ultimately show ?thesis
    by (auto simp: strip_with_def)
qed

lemma clean_link_on_handle:
  assumes "47 \<notin> set t" "63 \<notin> set t"
  shows "clean_link t =
           (if startswith (ascii ''@'') (strip t) then drop 1 (strip t) else strip t)"
proof -
  have s: "47 \<notin> set (strip t)" "63 \<notin> set (strip t)"
    using assms set_strip_with[of isspace t] by (auto simp: strip_def)
  then have d: "47 \<notin> set (drop 1 (strip t))" "63 \<notin> set (drop 1 (strip t))"
    by (auto dest: in_set_dropD)
  have r: "replace (ascii ''t.me/'') [] (replace (ascii ''https://t.me/'') [] (strip t)) = strip t"
    using s(1) by (simp add: replace_absent[of 47] ascii_tme ascii_https_tme)
  show ?thesis
    using s d by (simp add: clean_link_def r ascii_slash ascii_quest contains_single)
qed

lemma clean_link_fixed_only:
  assumes "47 \<notin> set t" "63 \<notin> set t" "clean_link t = t"
  shows "strip t = t \<and> \<not> startswith (ascii ''@'') t"
proof -
  note c = clean_link_on_handle[OF assms(1,2)]
  have le: "length (strip t) \<le> length t"
    using length_strip_with[of isspace t] by (simp add: strip_def)
  have "length (clean_link t) \<le> length (strip t)"
    by (simp add: c)
  with assms(3) le have "length (strip t) = length t"
    by simp
  then have st: "strip t = t"
    unfolding strip_def by (rule strip_with_same_length)
  have "\<not> startswith (ascii ''@'') t"
  proof
    assume a: "startswith (ascii ''@'') t"
    then have "t \<noteq> []"
      by (auto simp: startswith_def ascii_at)
    moreover from a c st assms(3) have "drop 1 t = t"
      by simp
    ultimately show False
      by (metis One_nat_def diff_Suc_less length_drop length_greater_0_conv less_irrefl)
  qed
  with st show ?thesis
    by simp
qed

subsection \<open>A stopped job emits nothing terminal\<close>

subsubsection \<open>The state\<close>

lemma trace_emit [simp]: "trace (emit s st) = trace st @ [Signal s]"
  and checks_emit [simp]: "checks (emit s st) = checks st"
  and reads_emit [simp]: "reads (emit s st) = reads st"
  and client_emit [simp]: "client (emit s st) = client st"
  by (simp_all add: emit_def)

lemma trace_called [simp]: "trace (called c st) = trace st @ [Call c]"
  and checks_called [simp]: "checks (called c st) = checks st"
  and reads_called [simp]: "reads (called c st) = reads st"
  and client_called [simp]: "client (called c st) = client st"
  by (simp_all add: called_def)

lemma trace_is_running [simp]: "trace (snd (is_running w st)) = trace st"
  and checks_is_running [simp]: "checks (snd (is_running w st)) = Suc (checks st)"
  and reads_is_running [simp]:
    "reads (snd (is_running w st)) = reads st @ [(length (trace st), fst (is_running w st))]"
  and client_is_running [simp]: "client (snd (is_running w st)) = client st"
  by (simp_all add: is_running_def now_def)

lemma outcome_of_append:
  "outcome_of (xs @ ys) = (if outcome_of xs = Cancelled then outcome_of ys else outcome_of xs)"
  by (induction xs rule: outcome_of.induct) simp_all

lemma outcome_of_single: "outcome_of [e] = Cancelled \<longleftrightarrow> \<not> terminal e"
  by (cases e rule: terminal.cases) simp_all

lemma silent_emit [simp]: "silent (emit s st) \<longleftrightarrow> silent st \<and> \<not> terminal (Signal s)"
  by (simp add: silent_def outcome_of_append outcome_of_single)

lemma silent_called [simp]: "silent (called c st) \<longleftrightarrow> silent st"
  by (simp add: silent_def outcome_of_append)

lemma silent_is_running [simp]: "silent (snd (is_running w st)) \<longleftrightarrow> silent st"
  by (simp add: silent_def)

lemma silent_client [simp]: "silent (st\<lparr>client := c\<rparr>) \<longleftrightarrow> silent st"
  by (simp add: silent_def)

lemma silent_trace: "trace st' = trace st \<Longrightarrow> silent st' \<longleftrightarrow> silent st"
  by (simp add: silent_def)

lemma unstopped_emit [simp]: "unstopped w (emit s st) \<longleftrightarrow> unstopped w st"
  and unstopped_called [simp]: "unstopped w (called c st) \<longleftrightarrow> unstopped w st"
  and unstopped_client [simp]: "unstopped w (st\<lparr>client := b\<rparr>) \<longleftrightarrow> unstopped w st"
  by (simp_all add: unstopped_def split: option.splits)

lemma unstopped_is_running [simp]:
  "unstopped w (snd (is_running w st)) \<longleftrightarrow> fst (is_running w st)"
  by (auto simp: unstopped_def is_running_def flag_def split: option.splits)

lemma wait_slot_trace:
  assumes "wait_slot w r j st = Some y"
  shows "trace (snd y) = trace st \<and> client (snd y) = client st \<and>
         checks st \<le> checks (snd y)"
proof -
  let ?P = "\<lambda>(w::remote) (r::reply) (j::nat) st y.
      trace (snd y) = trace st \<and> client (snd y) = client st \<and> checks st \<le> checks (snd y)"
  show ?thesis
  proof (rule wait_slot.raw_induct[where P = ?P, OF _ assms])
    fix f w r j st y
    assume IH: "\<And>w r j st y. f w r j st = Some y \<Longrightarrow> ?P w r j st y"
      and body:
        "(case slot r j of
            None \<Rightarrow>
              if fst (is_running w st) then f w r (Suc j) (snd (is_running w st))
              else Some (None, snd (is_running w st))
          | Some s \<Rightarrow> Some (Some s, st)) = Some y"
    show "?P w r j st y"
    proof (cases "slot r j")
      case (Some s)
      with body show ?thesis by auto
    next
      case None
      show ?thesis
      proof (cases "fst (is_running w st)")
        case True
        with None body have "f w r (Suc j) (snd (is_running w st)) = Some y" by simp
        from IH[OF this] show ?thesis by simp
      next
        case False
        with None body show ?thesis by auto
      qed
    qed
  qed
qed

lemma wait_slot_silent:
  assumes "wait_slot w r j st = Some (got, st')"
  shows "silent st' \<longleftrightarrow> silent st"
  using wait_slot_trace[OF assms] by (simp add: silent_def)

subsubsection \<open>Signing in keeps a stopped job silent\<close>

lemma sign_in_2fa_post:
  assumes "silent st0" "sign_in_2fa w st0 = Some (r, st')"
  shows "auth_post w r st'"
proof -
  define st1 where "st1 = emit AuthPasswordNeeded (emit (Progress Need2FA) st0)"
  from assms(2) obtain password st2 where
    w: "wait_slot w (auth_password_reply w (now st1)) 0 st1 = Some (password, st2)"
    by (auto simp: sign_in_2fa_def st1_def Let_def split: option.splits)
  have s2: "silent st2"
    using wait_slot_silent[OF w] assms(1) by (simp add: st1_def)
  from assms(2) w s2 show ?thesis
    by (auto simp: sign_in_2fa_def st1_def[symmetric] Let_def auth_post_def settled_def
        split: option.splits if_splits)
qed

lemma ask_code_sign_in_post:
  assumes "silent st0" "ask_code_sign_in w p st0 = Some (r, st')"
  shows "auth_post w r st'"
proof -
  define st1 where "st1 = emit (AuthCodeNeeded (AskCode p)) st0"
  from assms(2) obtain code st2 where
    w: "wait_slot w (auth_code_reply w (now st1)) 0 st1 = Some (code, st2)"
    by (auto simp: ask_code_sign_in_def st1_def Let_def split: option.splits)
  have s2: "silent st2"
    using wait_slot_silent[OF w] assms(1) by (simp add: st1_def)
  from assms(2) w s2 show ?thesis
    by (auto simp: ask_code_sign_in_def st1_def[symmetric] Let_def auth_post_def settled_def
        split: option.splits if_splits exn.splits dest!: sign_in_2fa_post[rotated])
qed

lemma connect_client_keeps [simp]:
  "silent (snd (connect_client w st)) \<longleftrightarrow> silent st"
  "unstopped w' (snd (connect_client w st)) \<longleftrightarrow> unstopped w' st"
  by (simp_all add: connect_client_def split: option.splits)

lemma ensure_client_keeps [simp]:
  "silent (snd (ensure_client w st)) \<longleftrightarrow> silent st"
  "unstopped w' (snd (ensure_client w st)) \<longleftrightarrow> unstopped w' st"
  by (simp_all add: ensure_client_def split: option.splits)

lemma auth_attempt_post:
  assumes "silent st0" "unstopped w st0" "auth_attempt w st0 = Some (a, st')"
  shows "case a of Returned r \<Rightarrow> auth_post w r st' | Again \<Rightarrow> silent st' \<and> unstopped w st'"
proof (cases "ensure_client w st0")
  case (Pair failed st1)
  have "st1 = snd (ensure_client w st0)"
    by (simp add: Pair)
  then have k: "silent st1" "unstopped w st1"
    using assms(1,2) by simp_all
  show ?thesis
  proof (cases "failed = None \<and> is_user_authorized w (now st1) = Inr False")
    case False
    with assms(3) Pair k show ?thesis
      by (auto simp: auth_attempt_def Let_def auth_post_def
          split: option.splits sum.splits bool.splits)
  next
    case True
    define st3 where "st3 = emit (AuthCodeNeeded AskPhone) (called IsUserAuthorized st1)"
    from assms(3) Pair True obtain code st4 where
      w: "wait_slot w (auth_code_reply w (now st3)) 0 st3 = Some (code, st4)"
      by (auto simp: auth_attempt_def st3_def Let_def split: option.splits)
    have s4: "silent st4"
      using wait_slot_silent[OF w] k by (simp add: st3_def)
    from assms(3) Pair True w s4 show ?thesis
      by (auto simp: auth_attempt_def st3_def[symmetric] Let_def auth_post_def settled_def
          split: option.splits if_splits exn.splits dest!: ask_code_sign_in_post[rotated])
  qed
qed

lemma ensure_auth_post:
  assumes "ensure_auth w st0 = Some y" "silent st0" "unstopped w st0"
  shows "auth_post w (fst y) (snd y)"
proof -
  have "silent st0 \<longrightarrow> unstopped w st0 \<longrightarrow> auth_post w (fst y) (snd y)"
  proof (rule ensure_auth.raw_induct[where P = "\<lambda>w st0 y.
      silent st0 \<longrightarrow> unstopped w st0 \<longrightarrow> auth_post w (fst y) (snd y)", OF _ assms(1)])
    fix f w st0 y
    assume IH: "\<And>w st0 y. f w st0 = Some y \<Longrightarrow>
        silent st0 \<longrightarrow> unstopped w st0 \<longrightarrow> auth_post w (fst y) (snd y)"
      and body: "(case auth_attempt w st0 of None \<Rightarrow> None
                  | Some (Returned r, st1) \<Rightarrow> Some (r, st1)
                  | Some (Again, st1) \<Rightarrow> f w st1) = Some y"
    show "silent st0 \<longrightarrow> unstopped w st0 \<longrightarrow> auth_post w (fst y) (snd y)"
    proof (intro impI)
      assume pre: "silent st0" "unstopped w st0"
      from body obtain a st1 where att: "auth_attempt w st0 = Some (a, st1)"
        by (cases "auth_attempt w st0") auto
      note post = auth_attempt_post[OF pre att]
      show "auth_post w (fst y) (snd y)"
      proof (cases a)
        case (Returned r)
        with body att post show ?thesis by auto
      next
        case Again
        with body att have "f w st1 = Some y" by simp
        from IH[OF this] post Again show ?thesis by simp
      qed
    qed
  qed
  with assms(2,3) show ?thesis by simp
qed

subsubsection \<open>The loops emit no terminal signal\<close>

lemma fetch_silent:
  assumes "\<And>n st. silent (every50 n st) \<longleftrightarrow> silent st"
  shows "silent (snd (snd (fetch w every50 xs buf st))) \<longleftrightarrow> silent st"
  by (induction xs arbitrary: buf st) (simp_all add: Let_def assms)

lemma iterate_silent:
  assumes "\<And>n st. silent (every50 n st) \<longleftrightarrow> silent st"
  shows "silent (snd (iterate w every50 it st)) \<longleftrightarrow> silent st"
proof (cases it)
  case (Iteration xs raised)
  obtain broke buf st1 where f: "fetch w every50 xs [] st = (broke, buf, st1)"
    by (cases "fetch w every50 xs [] st") auto
  have "silent st1 \<longleftrightarrow> silent st"
    using fetch_silent[of every50 w xs "[]" st, OF assms] by (simp add: f)
  then show ?thesis
    by (simp add: iterate_def Iteration f split: option.splits)
qed



lemma finish_settled: "silent st \<Longrightarrow> settled w (finish w t parsed st)"
  by (simp add: finish_def settled_def)


lemma cleanup_settled [simp]: "settled w (cleanup st) \<longleftrightarrow> settled w st"
  by (simp add: cleanup_def settled_def)

subsubsection \<open>The jobs\<close>

lemma members_every50_silent [simp]: "silent (members_every50 limit n st) \<longleftrightarrow> silent st"
  by (simp add: members_every50_def)

lemma messages_every50_silent [simp]: "silent (messages_every50 n st) \<longleftrightarrow> silent st"
  by (simp add: messages_every50_def)

lemma comments_every50_silent [simp]: "silent (comments_every50 limit n st) \<longleftrightarrow> silent st"
  by (simp add: comments_every50_def)











lemma unstopped_fold_emit [simp]: "unstopped w (fold emit first st) \<longleftrightarrow> unstopped w st"
  by (induction first arbitrary: st) simp_all

lemma silent_start [simp]: "silent start"
  by (simp add: silent_def start_def)



lemma settled_stopped:
  assumes "settled w st" "stop_after w = Some n" "n < checks st"
  shows "outcome_of (trace st) = Cancelled"
  using assms by (auto simp: settled_def silent_def unstopped_def)

subsection \<open>Runs in a given world\<close>

lemma now_emit [simp]: "now (emit s st) = Suc (now st)"
  and now_called [simp]: "now (called c st) = Suc (now st)"
  and now_is_running [simp]: "now (snd (is_running w st)) = now st"
  by (simp_all add: now_def)

lemma ensure_auth_returned:
  "auth_attempt w st = Some (Returned r, st') \<Longrightarrow> ensure_auth w st = Some (r, st')"
  by (subst ensure_auth.simps) simp

lemma ensure_auth_authorized:
  assumes "ensure_client w st = (None, st1)"
    and "is_user_authorized w (now st1) = Inr True"
    and "get_me w (Suc (now st1)) = Inr (Some me)"
  shows "ensure_auth w st =
           Some (Inr True,
                 emit (Progress (AuthorizedAs
                   (case first_name me of None \<Rightarrow> ascii ''None'' | Some n \<Rightarrow> n)))
                   (called GetMe (called IsUserAuthorized st1)))"
  by (rule ensure_auth_returned) (simp add: auth_attempt_def assms Let_def)

lemmas string_defs = ascii_def strip_def strip_with_def isspace_def replace_def startswith_def
  split_def

lemma link_mychannel: "parse_post_link (ascii ''mychannel'') = InvalidLink"
  by (simp add: parse_post_link_def string_defs)

lemma link_mychannel_42: "parse_post_link (ascii ''mychannel/42'') = PostLink (ascii ''mychannel'') 42"
  by (simp add: parse_post_link_def string_defs py_int_def int_space_def digit_value_def
      digit_zeros_def)

lemma clean_club: "clean_link (ascii ''club'') = ascii ''club''"
  by (simp add: clean_link_def string_defs)

lemma signed_in_simps [simp]:
  "stop_after signed_in = None" "new_client signed_in = None" "connect signed_in t = None"
  "is_user_authorized signed_in t = Inr True" "get_me signed_in t = Inr (Some bob)"
  "get_entity signed_in t h = Inr club" "get_full_channel signed_in t = Inr None"
  "iter_admins signed_in t = Iteration [] None" "iter_participants signed_in t l = Iteration [] None"
  "iter_messages signed_in t l r = Iteration [] None" "get_sender signed_in t m = Inr None"
  "get_reactions_list signed_in t i l = Inr \<lparr>reactions = [], users = []\<rparr>"
  by (simp_all add: signed_in_def)

lemma length_greeted [simp]: "length greeted = 5"
  by (simp add: greeted_def)

lemma is_running_unstopped:
  "stop_after w = None \<Longrightarrow>
     is_running w st =
       (True, st\<lparr>checks := Suc (checks st), reads := reads st @ [(now st, True)]\<rparr>)"
  by (simp add: is_running_def flag_def)

lemma ensure_auth_fresh:
  assumes "new_client w = None" "\<And>t. connect w t = None" "\<And>t. is_user_authorized w t = Inr True"
    "\<And>t. get_me w t = Inr (Some bob)"
  shows "ensure_auth w \<lparr>trace = tr, checks = n, reads = rs, client = None\<rparr> =
     Some (Inr True, \<lparr>trace = tr @ greeted, checks = n, reads = rs, client = Some True\<rparr>)"
  by (rule ensure_auth_returned)
     (simp add: auth_attempt_def ensure_client_def connect_client_def assms called_def emit_def bob_def greeted_def)

subsection \<open>The order of events\<close>

lemma before_collect_emit [simp]:
  "before_collect (emit s st) \<longleftrightarrow> before_collect st \<and> \<not> past_auth (Signal s)"
  by (auto simp: before_collect_def)

lemma before_collect_called [simp]:
  "before_collect (called c st) \<longleftrightarrow> before_collect st \<and> \<not> past_auth (Call c)"
  by (auto simp: before_collect_def)

lemma before_collect_is_running [simp]:
  "before_collect (snd (is_running w st)) \<longleftrightarrow> before_collect st"
  by (simp add: before_collect_def)

lemma before_collect_client [simp]:
  "before_collect (st\<lparr>client := b\<rparr>) \<longleftrightarrow> before_collect st"
  by (simp add: before_collect_def)

lemma wait_slot_before_collect:
  assumes "wait_slot w r j st = Some (got, st')"
  shows "before_collect st' \<longleftrightarrow> before_collect st"
  using wait_slot_trace[OF assms] by (simp add: before_collect_def)

lemma wait_slot_client:
  assumes "wait_slot w r j st = Some (got, st')"
  shows "client st' = client st" "trace st' = trace st"
  using wait_slot_trace[OF assms] by simp_all

lemma sign_in_2fa_keeps:
  assumes "sign_in_2fa w st0 = Some (r, st')"
  shows "auth_keeps st0 st'"
proof -
  define st1 where "st1 = emit AuthPasswordNeeded (emit (Progress Need2FA) st0)"
  from assms obtain password st2 where
    w: "wait_slot w (auth_password_reply w (now st1)) 0 st1 = Some (password, st2)"
    by (auto simp: sign_in_2fa_def st1_def Let_def split: option.splits)
  have "before_collect st2 \<longleftrightarrow> before_collect st0" "client st2 = client st0"
    "trace st2 = trace st0 @ [Signal (Progress Need2FA), Signal AuthPasswordNeeded]"
    using wait_slot_before_collect[OF w] wait_slot_client[OF w] by (simp_all add: st1_def)
  with assms w show ?thesis
    by (auto simp: sign_in_2fa_def st1_def[symmetric] Let_def auth_keeps_def
        split: option.splits if_splits)
qed

lemma ask_code_sign_in_keeps:
  assumes "ask_code_sign_in w p st0 = Some (r, st')"
  shows "auth_keeps st0 st'"
proof -
  define st1 where "st1 = emit (AuthCodeNeeded (AskCode p)) st0"
  from assms obtain code st2 where
    w: "wait_slot w (auth_code_reply w (now st1)) 0 st1 = Some (code, st2)"
    by (auto simp: ask_code_sign_in_def st1_def Let_def split: option.splits)
  have k: "before_collect st2 \<longleftrightarrow> before_collect st0" "client st2 = client st0"
    "trace st2 = trace st0 @ [Signal (AuthCodeNeeded (AskCode p))]"
    using wait_slot_before_collect[OF w] wait_slot_client[OF w] by (simp_all add: st1_def)
  show ?thesis
  proof (cases "\<exists>c. code = Some c \<and> fst (is_running w st2) \<and>
      sign_in_code w (now (snd (is_running w st2))) p (strip c) = Some SessionPasswordNeededError")
    case False
    with assms w k show ?thesis
      by (auto simp: ask_code_sign_in_def st1_def[symmetric] Let_def auth_keeps_def
          split: option.splits if_splits exn.splits)
  next
    case True
    then obtain c where c: "code = Some c" "fst (is_running w st2)"
      "sign_in_code w (now (snd (is_running w st2))) p (strip c) = Some SessionPasswordNeededError"
      by auto
    define st4 where "st4 = called (SignInCode p (strip c)) (snd (is_running w st2))"
    from assms w c have "sign_in_2fa w st4 = Some (r, st')"
      by (simp add: ask_code_sign_in_def st1_def[symmetric] Let_def st4_def)
    from sign_in_2fa_keeps[OF this] k show ?thesis
      by (auto simp: auth_keeps_def st4_def)
  qed
qed

lemma ensure_client_connects:
  assumes "ensure_client w st = (failed, st1)"
  shows "(before_collect st \<longrightarrow> before_collect st1) \<and> set (trace st) \<subseteq> set (trace st1) \<and>
         (connected_by_call st \<longrightarrow> connected_by_call st1) \<and>
         (failed = None \<longrightarrow> client st1 = Some True)"
  using assms
  by (auto simp: ensure_client_def connect_client_def connected_by_call_def
      split: option.splits if_splits)

lemma auth_attempt_order:
  assumes "connected_by_call st0" "auth_attempt w st0 = Some (a, st')"
  shows "attempt_order st0 st' \<and> (a = Again \<or> a = Returned (Inr True) \<longrightarrow> signed_in_by_call st')"
proof (cases "ensure_client w st0")
  case (Pair failed st1)
  note c = ensure_client_connects[OF Pair]
  show ?thesis
  proof (cases "failed = None \<and> is_user_authorized w (now st1) = Inr False")
    case False
    with assms Pair c show ?thesis
      by (auto simp: auth_attempt_def Let_def attempt_order_def signed_in_by_call_def
          connected_by_call_def split: option.splits sum.splits bool.splits)
  next
    case True
    with c assms(1) have c1: "client st1 = Some True" "Call Connect \<in> set (trace st1)"
      by (auto simp: connected_by_call_def)
    define st3 where "st3 = emit (AuthCodeNeeded AskPhone) (called IsUserAuthorized st1)"
    from assms(2) Pair True obtain code st4 where
      w: "wait_slot w (auth_code_reply w (now st3)) 0 st3 = Some (code, st4)"
      by (auto simp: auth_attempt_def st3_def Let_def split: option.splits)
    have k: "before_collect st4 \<longleftrightarrow> before_collect st1" "client st4 = Some True"
      "trace st4 = trace st1 @ [Call IsUserAuthorized, Signal (AuthCodeNeeded AskPhone)]"
      using wait_slot_before_collect[OF w] wait_slot_client[OF w] c1 by (simp_all add: st3_def)
    show ?thesis
    proof (cases "\<exists>c. code = Some c \<and> fst (is_running w st4) \<and>
        send_code_request w (Suc (now (snd (is_running w st4)))) (strip c) = None")
      case False
      with assms(2) Pair True w k c c1 show ?thesis
        by (auto simp: auth_attempt_def st3_def[symmetric] Let_def attempt_order_def
            signed_in_by_call_def connected_by_call_def
            split: option.splits if_splits exn.splits)
    next
      case sent: True
      then obtain c' where c': "code = Some c'" "fst (is_running w st4)"
        "send_code_request w (Suc (now (snd (is_running w st4)))) (strip c') = None"
        by auto
      define st7 where "st7 = called (SendCodeRequest (strip c'))
        (emit (Progress (SendingCode (strip c'))) (snd (is_running w st4)))"
      from assms(2) Pair True w c' obtain r where
        r: "ask_code_sign_in w (strip c') st7 = Some (r, st')" and a: "a = Returned r"
        by (auto simp: auth_attempt_def st3_def[symmetric] Let_def st7_def)
      from ask_code_sign_in_keeps[OF r] k c c1 show ?thesis
        by (auto simp: auth_keeps_def st7_def attempt_order_def signed_in_by_call_def
            connected_by_call_def a)
    qed
  qed
qed

lemma ensure_auth_order:
  assumes "ensure_auth w st0 = Some y" "connected_by_call st0"
  shows "attempt_order st0 (snd y) \<and> (fst y = Inr True \<longrightarrow> signed_in_by_call (snd y))"
proof -
  let ?P = "\<lambda>(w::remote) st0 y. connected_by_call st0 \<longrightarrow>
      attempt_order st0 (snd y) \<and> (fst y = Inr True \<longrightarrow> signed_in_by_call (snd y))"
  have "?P w st0 y"
  proof (rule ensure_auth.raw_induct[where P = ?P, OF _ assms(1)])
    fix f w st0 y
    assume IH: "\<And>w st0 y. f w st0 = Some y \<Longrightarrow> ?P w st0 y"
      and body: "(case auth_attempt w st0 of None \<Rightarrow> None
                  | Some (Returned r, st1) \<Rightarrow> Some (r, st1)
                  | Some (Again, st1) \<Rightarrow> f w st1) = Some y"
    show "?P w st0 y"
    proof (intro impI)
      assume pre: "connected_by_call st0"
      from body obtain a st1 where att: "auth_attempt w st0 = Some (a, st1)"
        by (cases "auth_attempt w st0") auto
      note post = auth_attempt_order[OF pre att]
      show "attempt_order st0 (snd y) \<and> (fst y = Inr True \<longrightarrow> signed_in_by_call (snd y))"
      proof (cases a)
        case (Returned r)
        with body att post show ?thesis by auto
      next
        case Again
        with body att have "f w st1 = Some y" by simp
        from IH[OF this] post Again show ?thesis
          by (auto simp: attempt_order_def)
      qed
    qed
  qed
  with assms(2) show ?thesis by simp
qed

lemma before_collect_cleanup [simp]: "before_collect (cleanup st) \<longleftrightarrow> before_collect st"
  by (simp add: cleanup_def)

lemma before_collect_on_exception [simp]:
  "before_collect (on_exception w raised st) \<longleftrightarrow> before_collect st"
  by (simp add: on_exception_def split: option.splits)

lemma before_collect_fold_emit:
  "\<forall>s\<in>set first. \<not> past_auth (Signal s) \<Longrightarrow>
     before_collect (fold emit first st) \<longleftrightarrow> before_collect st"
  by (induction first arbitrary: st) simp_all

lemma client_fold_emit [simp]: "client (fold emit first st) = client st"
  by (induction first arbitrary: st) simp_all

lemma invalid_link_order:
  assumes collect: "\<And>st. collect st = (None, emit (Error err) st)"
    and first: "\<forall>s\<in>set first. \<not> past_auth (Signal s)"
    and err: "past_auth (Signal (Error err))"
    and run: "parse_with w first collect = Some st"
    and seen: "Signal (Error err) \<in> set (trace st)"
  shows "\<exists>before. trace st = before @ [Signal (Error err), Call Disconnect] \<and>
           Call Connect \<in> set before \<and> Call IsUserAuthorized \<in> set before \<and>
           (\<forall>e\<in>set before. \<not> past_auth e)"
proof -
  from run obtain raised st3 where
    t: "try_block w first collect start = Some (raised, st3)"
    and st: "st = cleanup (on_exception w raised st3)"
    by (auto simp: parse_with_def split: option.splits)
  have not_before: "\<not> before_collect st"
    using seen err by (auto simp: before_collect_def)
  have running: "fst (is_running w start)"
  proof (rule ccontr)
    assume "\<not> fst (is_running w start)"
    with t have "st3 = snd (is_running w start)"
      by (simp add: try_block_def)
    moreover have "before_collect start"
      by (simp add: start_def before_collect_def)
    ultimately have "before_collect st"
      by (simp add: st)
    with not_before show False by simp
  qed
  define st1 where "st1 = fold emit first (snd (is_running w start))"
  have pre: "connected_by_call st1" "before_collect st1"
    using first by (simp_all add: st1_def connected_by_call_def before_collect_fold_emit)
      (simp_all add: start_def before_collect_def)
  from t running obtain r st2 where auth: "ensure_auth w st1 = Some (r, st2)"
    by (auto simp: try_block_def st1_def split: option.splits)
  from ensure_auth_order[OF auth pre(1)] pre(2)
  have post: "before_collect st2" "r = Inr True \<longrightarrow> signed_in_by_call st2"
    by (simp_all add: attempt_order_def)
  have r: "r = Inr True"
  proof (rule ccontr)
    assume "r \<noteq> Inr True"
    with t running auth have "st3 = st2"
      by (cases r) (auto simp: try_block_def st1_def[symmetric])
    with post(1) st have "before_collect st" by simp
    with not_before show False by simp
  qed
  with t running auth collect have "raised = None" "st3 = emit (Error err) st2"
    by (simp_all add: try_block_def st1_def[symmetric])
  with st r post have "trace st = trace st2 @ [Signal (Error err), Call Disconnect]"
    by (simp add: on_exception_def cleanup_def signed_in_by_call_def)
  with r post show ?thesis
    by (auto simp: signed_in_by_call_def before_collect_def)
qed

subsection \<open>Example runs\<close>

lemmas job_defs = parse_with_def try_block_def start_def emit_def called_def now_def
  on_exception_def cleanup_def finish_def iterate_def

lemma club_simps [simp]: "is_channel club = False" "title club = Some (ascii ''Club'')"
  by (simp_all add: club_def)



lemma comments_mychannel_run:
  "comments_parse signed_in (ascii ''mychannel'') 10 = Some refused_comments"
  by (simp add: comments_parse_def job_defs is_running_unstopped ensure_auth_fresh
      comments_collect_def link_mychannel refused_comments_def)

lemma reactions_mychannel_run:
  "reactions_parse signed_in (ascii ''mychannel'') 10 = Some refused_reactions"
  by (simp add: reactions_parse_def job_defs is_running_unstopped ensure_auth_fresh
      reactions_collect_def link_mychannel refused_reactions_def)

lemma clean_link_at_at: "clean_link (ascii ''@@foo'') = ascii ''@foo''"
  by (simp add: clean_link_def string_defs)

lemma clean_link_at_space: "clean_link (ascii ''@ foo'') = ascii '' foo''"
  by (simp add: clean_link_def string_defs)

lemma clean_link_at: "clean_link (ascii ''@foo'') = ascii ''foo''"
  by (simp add: clean_link_def string_defs)

lemma clean_link_space: "clean_link (ascii '' foo'') = ascii ''foo''"
  by (simp add: clean_link_def string_defs)

lemma clean_link_post_url: "clean_link (ascii ''https://t.me/foo/123?x=1'') = ascii ''foo''"
  by (simp add: clean_link_def string_defs)

lemma post_link_url:
  "parse_post_link (ascii ''https://t.me/@foo/123?x=1'') = PostLink (ascii ''@foo'') 123"
  by (simp add: parse_post_link_def string_defs py_int_def int_space_def digit_value_def
      digit_zeros_def)

subsection \<open>The limit 0\<close>

lemma silent_filter: "silent st \<longleftrightarrow> filter terminal (trace st) = []"
proof -
  have "outcome_of tr = Cancelled \<longleftrightarrow> filter terminal tr = []" for tr
    by (induction tr rule: outcome_of.induct) simp_all
  then show ?thesis by (simp add: silent_def)
qed

lemma filter_terminal_cleanup [simp]:
  "filter terminal (trace (cleanup st)) = filter terminal (trace st)"
  by (simp add: cleanup_def)

lemma ensure_auth_true_silent:
  assumes "stop_after w = None" "ensure_auth w st0 = Some (Inr True, st1)" "silent st0"
  shows "filter terminal (trace st1) = []"
proof -
  have "unstopped w st0"
    using assms(1) by (simp add: unstopped_def)
  from ensure_auth_post[OF assms(2,3) this] show ?thesis
    by (simp add: auth_post_def silent_filter)
qed

lemma is_running_true: "stop_after w = None \<Longrightarrow> fst (is_running w st)"
  by (simp add: is_running_def flag_def)

lemma members_limit_zero:
  assumes stop: "stop_after w = None"
    and auth: "ensure_auth w (emit (Progress InitClient) (snd (is_running w start))) =
                 Some (Inr True, st1)"
    and ent: "\<forall>t. get_entity w t (clean_link link) = Inr ent"
    and full: "is_channel ent \<longrightarrow> (\<forall>t. \<exists>n. get_full_channel w t = Inr n)"
    and none: "\<forall>t. iter_participants w t 0 = Iteration [] None"
  shows "\<exists>st. members_parse w link 0 = Some st \<and>
           filter terminal (trace st) =
             [Signal (Finished (EntityTitle (or_empty (title ent))) [])]"
proof -
  have quiet: "filter terminal (trace st1) = []"
    by (rule ensure_auth_true_silent[OF stop auth]) simp
  have run: "\<And>st. fst (is_running w st)"
    using stop by (rule is_running_true)
  show ?thesis
  proof (cases "is_channel ent")
    case False
    then show ?thesis
      using quiet run ent none auth
      by (simp add: members_parse_def parse_with_def try_block_def members_collect_def Let_def
          iterate_def finish_def on_exception_def)
  next
    case True
    with full obtain n where n: "get_full_channel w (now (called (GetEntity (clean_link link))
        (emit (Progress (SearchGroup (clean_link link))) (snd (is_running w st1))))) = Inr n"
      by blast
    from True show ?thesis
      using quiet run ent none auth n
      by (simp add: members_parse_def parse_with_def try_block_def members_collect_def Let_def
          iterate_def finish_def on_exception_def)
  qed
qed

lemma messages_limit_zero:
  assumes stop: "stop_after w = None"
    and auth: "ensure_auth w (emit (Progress InitClient) (snd (is_running w start))) =
                 Some (Inr True, st1)"
    and ent: "\<forall>t. get_entity w t (clean_link link) = Inr ent"
    and none: "\<forall>t. iter_messages w t 0 None = Iteration [] None"
  shows "\<exists>st. messages_parse w link 0 = Some st \<and>
           filter terminal (trace st) =
             [Signal (Finished (MessagesOf
                (case title ent of None \<Rightarrow> clean_link link | Some t \<Rightarrow> t)) [])]"
proof -
  have quiet: "filter terminal (trace st1) = []"
    by (rule ensure_auth_true_silent[OF stop auth]) simp
  have run: "\<And>st. fst (is_running w st)"
    using stop by (rule is_running_true)
  show ?thesis
    using quiet run ent none auth
    by (simp add: messages_parse_def parse_with_def try_block_def messages_collect_def Let_def
        iterate_def finish_def on_exception_def)
qed

lemma comments_limit_zero:
  assumes stop: "stop_after w = None"
    and auth: "ensure_auth w (emit (Progress InitClient) (snd (is_running w start))) =
                 Some (Inr True, st1)"
    and link: "parse_post_link link = PostLink channel_part msg_id"
    and ent: "\<forall>t. get_entity w t channel_part = Inr ent"
    and none: "\<forall>t. iter_messages w t 0 (Some msg_id) = Iteration [] None"
  shows "\<exists>st. comments_parse w link 0 = Some st \<and>
           filter terminal (trace st) = [Signal (Finished (CommentsOf msg_id) [])]"
proof -
  have quiet: "filter terminal (trace st1) = []"
    by (rule ensure_auth_true_silent[OF stop auth]) simp
  have run: "\<And>st. fst (is_running w st)"
    using stop by (rule is_running_true)
  show ?thesis
    using quiet run ent none auth link
    by (simp add: comments_parse_def parse_with_def try_block_def comments_collect_def Let_def
        iterate_def finish_def on_exception_def)
qed

lemma reactions_limit_zero:
  assumes stop: "stop_after w = None"
    and auth: "ensure_auth w (snd (is_running w start)) = Some (Inr True, st1)"
    and link: "parse_post_link link = PostLink channel_part msg_id"
    and ent: "\<forall>t. get_entity w t channel_part = Inr ent"
    and none: "\<forall>t. \<exists>response. get_reactions_list w t msg_id 0 = Inr response \<and>
                 users response = []"
  shows "\<exists>st. reactions_parse w link 0 = Some st \<and>
           filter terminal (trace st) = [Signal (Finished (ReactionsOf msg_id) [])]"
proof -
  have quiet: "filter terminal (trace st1) = []"
    by (rule ensure_auth_true_silent[OF stop auth]) simp
  have run: "\<And>st. fst (is_running w st)"
    using stop by (rule is_running_true)
  define name where "name = (case title ent of None \<Rightarrow> channel_part | Some t \<Rightarrow> t)"
  from none obtain response where
    r: "get_reactions_list w (now (emit (Progress (ChannelChatPost name msg_id))
          (called (GetEntity channel_part) st1))) msg_id 0 = Inr response"
      "users response = []"
    by blast
  show ?thesis
    using quiet run ent auth link r
    by (simp add: reactions_parse_def parse_with_def try_block_def reactions_collect_def Let_def
        finish_def on_exception_def name_def[symmetric])
qed

subsection \<open>Further runs, rows and prompts\<close>

lemma ensure_client_prompts:
  "filter prompt (trace (snd (ensure_client w st))) = filter prompt (trace st)"
  by (simp add: ensure_client_def connect_client_def split: option.splits)

lemma ensure_auth_signed_in:
  assumes "new_client w = None" "\<And>t. connect w t = None" "\<And>t. is_user_authorized w t = Inr True"
    "\<And>t. get_me w t = Inr (Some bob)"
  shows "ensure_auth w (emit s (snd (is_running w start))) =
     Some (Inr True,
           \<lparr>trace = Signal s # greeted, checks = 1, reads = [(0, flag w 0)],
            client = Some True\<rparr>)"
    and "ensure_auth w (snd (is_running w start)) =
     Some (Inr True,
           \<lparr>trace = greeted, checks = 1, reads = [(0, flag w 0)], client = Some True\<rparr>)"
  using ensure_auth_fresh[of w "[Signal s]" 1 "[(0, flag w 0)]", OF assms]
    ensure_auth_fresh[of w "[]" 1 "[(0, flag w 0)]", OF assms]
  by (simp_all add: is_running_def start_def emit_def now_def)

lemma nowhere_run:
  "members_parse nowhere (ascii ''club'') 0 =
     Some \<lparr>trace = Signal (Progress InitClient) # greeted @
             [Signal (Progress (SearchGroup (ascii ''club''))), Call (GetEntity (ascii ''club'')),
              Signal (Error (GroupNotFound (OtherError (ascii ''not found'')))),
              Call Disconnect],
           checks = 2, reads = [(0, True), (6, True)], client = Some False\<rparr>"
proof -
  have auth: "\<And>tr n rs. ensure_auth nowhere \<lparr>trace = tr, checks = n, reads = rs, client = None\<rparr> =
     Some (Inr True, \<lparr>trace = tr @ greeted, checks = n, reads = rs, client = Some True\<rparr>)"
    by (rule ensure_auth_fresh) (simp_all add: nowhere_def signed_in_def)
  have w: "stop_after nowhere = None"
    "\<And>t h. get_entity nowhere t h = Inl (OtherError (ascii ''not found''))"
    by (simp_all add: nowhere_def signed_in_def)
  show ?thesis
    by (simp add: members_parse_def job_defs is_running_unstopped w auth members_collect_def
        clean_club Let_def)
qed

lemma one_reactor_run:
  "reactions_parse one_reactor (ascii ''mychannel/42'') 0 =
     Some \<lparr>trace = greeted @
             [Call (GetEntity (ascii ''mychannel'')),
              Signal (Progress (ChannelChatPost (ascii ''Club'') 42)),
              Call (GetReactionsList 42 0),
              Signal (Finished (ReactionsOf 42) [reaction_row [129513] bob]),
              Call Disconnect],
           checks = 2, reads = [(0, True), (8, True)], client = Some False\<rparr>"
proof -
  have auth: "\<And>tr n rs. ensure_auth one_reactor \<lparr>trace = tr, checks = n, reads = rs, client = None\<rparr> =
     Some (Inr True, \<lparr>trace = tr @ greeted, checks = n, reads = rs, client = Some True\<rparr>)"
    by (rule ensure_auth_fresh) (simp_all add: one_reactor_def signed_in_def)
  have w: "stop_after one_reactor = None"
    "\<And>t h. get_entity one_reactor t h = Inr club"
    "\<And>t i l. get_reactions_list one_reactor t i l = Inr \<lparr>reactions = [], users = [bob]\<rparr>"
    by (simp_all add: one_reactor_def signed_in_def)
  show ?thesis
    by (simp add: reactions_parse_def job_defs is_running_unstopped w auth reactions_collect_def
        link_mychannel_42 Let_def)
qed

lemma reaction_rows_bound:
  "reaction_rows limit rs us parsed = Inr rows \<Longrightarrow> int (length parsed) < limit \<Longrightarrow>
     int (length rows) \<le> limit"
proof (induction us arbitrary: parsed)
  case Nil
  then show ?case by simp
next
  case (Cons u us)
  then show ?case
    by (auto simp: Let_def split: sum.splits if_splits)
qed

lemma admins_break_run:
  "members_parse admins_break (ascii ''club'') 10 =
     Some \<lparr>trace = Signal (Progress InitClient) # greeted @
             [Signal (Progress (SearchGroup (ascii ''club''))), Call (GetEntity (ascii ''club'')),
              Signal (Progress (GroupTitle (ascii ''Club''))),
              Signal (Progress (MembersCount CountUnknown)), Call IterAdmins,
              Call (IterParticipants 10),
              Signal (Finished (EntityTitle (ascii ''Club'')) [member_row {7} bob]),
              Call Disconnect],
           checks = 5,
           reads = [(0, True), (6, True), (12, True), (12, True), (12, True)],
           client = Some False\<rparr>"
proof -
  have auth: "\<And>tr n rs. ensure_auth admins_break \<lparr>trace = tr, checks = n, reads = rs, client = None\<rparr> =
     Some (Inr True, \<lparr>trace = tr @ greeted, checks = n, reads = rs, client = Some True\<rparr>)"
    by (rule ensure_auth_fresh) (simp_all add: admins_break_def signed_in_def)
  have w: "stop_after admins_break = None"
    "\<And>t h. get_entity admins_break t h = Inr club"
    "\<And>t. iter_admins admins_break t = Iteration [bob] (Some (OtherError (ascii ''flood'')))"
    "\<And>t l. iter_participants admins_break t l = Iteration [bob] None"
    by (simp_all add: admins_break_def signed_in_def)
  have b: "user_id bob = 7"
    by (simp add: bob_def)
  show ?thesis
    by (simp add: members_parse_def job_defs is_running_unstopped w auth members_collect_def
        clean_club Let_def or_empty_def collect_admin_ids_def b)
qed

lemma admin_flag_by_membership:
  "map_of (member_row admin_ids u) ''Is Admin'' = Some (yes_no (user_id u \<in> admin_ids))"
  by (simp add: member_row_def Let_def)

lemma admins_fail_at_once: "collect_admin_ids (Iteration [] (Some e)) = {}"
  by (simp add: collect_admin_ids_def)

lemma resolve_senders_rows:
  "resolve_senders w mk_row ms parsed st = (Inr rows, st') \<Longrightarrow>
     \<exists>more. rows = parsed @ more \<and> length more = length ms"
proof (induction ms arbitrary: parsed st)
  case Nil
  then show ?case by simp
next
  case (Cons m ms)
  from Cons.prems obtain sender r where
    rest: "resolve_senders w mk_row ms (parsed @ [r]) (called (GetSender (m_id m)) st) =
      (Inr rows, st')"
    by (auto simp: Let_def split: sum.splits)
  from Cons.IH[OF rest] obtain more where "rows = (parsed @ [r]) @ more" "length more = length ms"
    by blast
  then have "rows = parsed @ (r # more) \<and> length (r # more) = length (m # ms)"
    by simp
  then show ?case by blast
qed

subsection \<open>A stopped job returns\<close>








subsection \<open>The reads of is_running and the finished signal\<close>


subsubsection \<open>What every step keeps, the jobs keep\<close>




















subsubsection \<open>The reads of \<open>is_running\<close>\<close>







subsection \<open>Jobs that fetch every item\<close>

subsubsection \<open>A job that is not stopped fetches every item\<close>




lemma messages_iterate_silent [simp]:
  "silent (snd (iterate w messages_every50 it st)) \<longleftrightarrow> silent st"
  by (rule iterate_silent) simp

lemma comments_iterate_silent [simp]:
  "silent (snd (iterate w (comments_every50 limit) it st)) \<longleftrightarrow> silent st"
  by (rule iterate_silent) simp




lemma outcome_of_filter: "outcome_of (filter terminal tr) = outcome_of tr"
  by (induction tr rule: outcome_of.induct) simp_all

lemma completed_by_filter:
  assumes "\<exists>st. run = Some st \<and> filter terminal (trace st) = [Signal (Finished t rows)]"
  shows "map_option (\<lambda>st. outcome_of (trace st)) run = Some (Completed t rows)"
proof -
  from assms obtain st where st: "run = Some st"
    "filter terminal (trace st) = [Signal (Finished t rows)]"
    by blast
  from outcome_of_filter[of "trace st"] st(2) have "outcome_of (trace st) = Completed t rows"
    by simp
  with st(1) show ?thesis
    by simp
qed

lemma two_reactors_simps:
  "stop_after two_reactors = None" "new_client two_reactors = None"
  "connect two_reactors t = None" "is_user_authorized two_reactors t = Inr True"
  "get_me two_reactors t = Inr (Some bob)" "get_entity two_reactors t h = Inr club"
  "iter_participants two_reactors t l = Iteration [] None"
  "iter_messages two_reactors t l r = Iteration [] None"
  by (simp_all add: two_reactors_def signed_in_def)



lemma two_reactors_run:
  "reactions_parse two_reactors (ascii ''mychannel/42'') 0 =
     Some \<lparr>trace = greeted @
             [Call (GetEntity (ascii ''mychannel'')),
              Signal (Progress (ChannelChatPost (ascii ''Club'') 42)),
              Call (GetReactionsList 42 0),
              Signal (Finished (ReactionsOf 42) [reaction_row [129513] bob]),
              Call Disconnect],
           checks = 2, reads = [(0, True), (8, True)], client = Some False\<rparr>"
proof -
  have auth: "\<And>tr n rs. ensure_auth two_reactors \<lparr>trace = tr, checks = n, reads = rs, client = None\<rparr> =
     Some (Inr True, \<lparr>trace = tr @ greeted, checks = n, reads = rs, client = Some True\<rparr>)"
    by (rule ensure_auth_fresh) (simp_all add: two_reactors_def signed_in_def)
  have w: "stop_after two_reactors = None"
    "\<And>t h. get_entity two_reactors t h = Inr club"
    "\<And>t i l. get_reactions_list two_reactors t i l = Inr \<lparr>reactions = [], users = [bob, ann]\<rparr>"
    by (simp_all add: two_reactors_def signed_in_def)
  show ?thesis
    by (simp add: reactions_parse_def job_defs is_running_unstopped w auth reactions_collect_def
        link_mychannel_42 Let_def)
qed

section \<open>The claims\<close>

text \<open>
  C1, as the specification has it: for the comments job and the reactions job, a link
  that fails the post-link check is reported before any remote call, with no connection
  and no sign-in before the error. The code does otherwise: both jobs run \<open>ensure_auth\<close>
  first. In a world with a stored session and the link \<open>mychannel\<close>, the client is made
  and connected and the session is asked for before the error is emitted.
\<close>

theorem invalid_link_error_after_connect:
  "map_option trace (comments_parse signed_in (ascii ''mychannel'') 10) =
     Some [Signal (Progress InitClient), Call NewClient, Call Connect, Call IsUserAuthorized,
           Call GetMe, Signal (Progress (AuthorizedAs (ascii ''Bob''))),
           Signal (Error InvalidPostLinkComments), Call Disconnect] \<and>
   map_option trace (reactions_parse signed_in (ascii ''mychannel'') 10) =
     Some [Call NewClient, Call Connect, Call IsUserAuthorized, Call GetMe,
           Signal (Progress (AuthorizedAs (ascii ''Bob''))),
           Signal (Error InvalidPostLinkReactions), Call Disconnect]"
  by (simp add: comments_mychannel_run reactions_mychannel_run refused_comments_def
      refused_reactions_def greeted_def)

text \<open>
  C1, amended: when the link fails the post-link check and the job reports it, the
  report comes after the job has connected and has asked whether the session is
  authorized; nothing of the collecting part (no entity is resolved, nothing is
  fetched, nothing is finished) comes before it, and after it the job only disconnects.
\<close>

theorem invalid_link_reported_after_sign_in:
  assumes "parse_post_link link = InvalidLink"
    and "comments_parse w link limit = Some st \<and> err = InvalidPostLinkComments \<or>
         reactions_parse w link limit = Some st \<and> err = InvalidPostLinkReactions"
    and "Signal (Error err) \<in> set (trace st)"
  shows "\<exists>before. trace st = before @ [Signal (Error err), Call Disconnect] \<and>
           Call Connect \<in> set before \<and> Call IsUserAuthorized \<in> set before \<and>
           (\<forall>e\<in>set before. \<not> past_auth e)"
  using assms(2)
proof
  assume a: "comments_parse w link limit = Some st \<and> err = InvalidPostLinkComments"
  show ?thesis
    by (rule invalid_link_order[of "comments_collect w link limit" err "[Progress InitClient]" w st])
      (use a assms(1,3) in \<open>simp_all add: comments_collect_def comments_parse_def\<close>)
next
  assume a: "reactions_parse w link limit = Some st \<and> err = InvalidPostLinkReactions"
  show ?thesis
    by (rule invalid_link_order[of "reactions_collect w link limit" err "[]" w st])
      (use a assms(1,3) in \<open>simp_all add: reactions_collect_def reactions_parse_def\<close>)
qed

theorem invalid_link_reported_after_sign_in_witness:
  "parse_post_link (ascii ''mychannel'') = InvalidLink \<and>
   comments_parse signed_in (ascii ''mychannel'') 10 = Some refused_comments \<and>
   Signal (Error InvalidPostLinkComments) \<in> set (trace refused_comments) \<and>
   (\<exists>before. trace refused_comments =
        before @ [Signal (Error InvalidPostLinkComments), Call Disconnect] \<and>
      Call Connect \<in> set before \<and> Call IsUserAuthorized \<in> set before \<and>
      (\<forall>e\<in>set before. \<not> past_auth e))"
proof -
  have seen: "Signal (Error InvalidPostLinkComments) \<in> set (trace refused_comments)"
    by (simp add: refused_comments_def)
  have run: "comments_parse signed_in (ascii ''mychannel'') 10 = Some refused_comments \<and>
      InvalidPostLinkComments = InvalidPostLinkComments"
    by (simp add: comments_mychannel_run)
  from invalid_link_reported_after_sign_in[OF link_mychannel disjI1[OF run] seen]
    link_mychannel comments_mychannel_run seen
  show ?thesis by simp
qed

text \<open>
  C2: with the limit 0 every job ends with \<open>Completed\<close>, the title and an empty list.
  In a world with a stored session, in which the iterators yield nothing and the
  server lists two users for the reactions of the post, the members job, the messages
  job and the comments job with the limit 0 do end so. The reactions job does not: its
  loop appends the record of the first user and tests \<open>len(parsed) >= self.limit\<close> after
  that, so it ends with \<open>Completed\<close> and one record.
\<close>

theorem limit_zero_reactions_not_empty:
  "map_option (\<lambda>st. outcome_of (trace st)) (members_parse two_reactors (ascii ''club'') 0) =
     Some (Completed (EntityTitle (ascii ''Club'')) []) \<and>
   map_option (\<lambda>st. outcome_of (trace st)) (messages_parse two_reactors (ascii ''club'') 0) =
     Some (Completed (MessagesOf (ascii ''Club'')) []) \<and>
   map_option (\<lambda>st. outcome_of (trace st))
     (comments_parse two_reactors (ascii ''mychannel/42'') 0) =
     Some (Completed (CommentsOf 42) []) \<and>
   map_option (\<lambda>st. outcome_of (trace st))
     (reactions_parse two_reactors (ascii ''mychannel/42'') 0) =
     Some (Completed (ReactionsOf 42) [reaction_row [129513] bob])"
proof -
  note w = two_reactors_simps
  have auth:
    "ensure_auth two_reactors
       (emit (Progress InitClient) (snd (is_running two_reactors start))) =
       Some (Inr True,
             \<lparr>trace = Signal (Progress InitClient) # greeted, checks = 1,
              reads = [(0, flag two_reactors 0)], client = Some True\<rparr>)"
    by (rule ensure_auth_signed_in) (simp_all add: w)
  have "\<exists>st. members_parse two_reactors (ascii ''club'') 0 = Some st \<and>
      filter terminal (trace st) = [Signal (Finished (EntityTitle (or_empty (title club))) [])]"
    by (rule members_limit_zero[OF w(1) auth]) (simp_all add: w)
  from completed_by_filter[OF this]
  have members: "map_option (\<lambda>st. outcome_of (trace st))
      (members_parse two_reactors (ascii ''club'') 0) =
      Some (Completed (EntityTitle (ascii ''Club'')) [])"
    by (simp add: or_empty_def)
  have "\<exists>st. messages_parse two_reactors (ascii ''club'') 0 = Some st \<and>
      filter terminal (trace st) =
        [Signal (Finished (MessagesOf
           (case title club of None \<Rightarrow> clean_link (ascii ''club'') | Some t \<Rightarrow> t)) [])]"
    by (rule messages_limit_zero[OF w(1) auth]) (simp_all add: w)
  from completed_by_filter[OF this]
  have messages: "map_option (\<lambda>st. outcome_of (trace st))
      (messages_parse two_reactors (ascii ''club'') 0) =
      Some (Completed (MessagesOf (ascii ''Club'')) [])"
    by simp
  have "\<exists>st. comments_parse two_reactors (ascii ''mychannel/42'') 0 = Some st \<and>
      filter terminal (trace st) = [Signal (Finished (CommentsOf 42) [])]"
    by (rule comments_limit_zero[OF w(1) auth link_mychannel_42, of club]) (simp_all add: w)
  from completed_by_filter[OF this]
  have comments: "map_option (\<lambda>st. outcome_of (trace st))
      (comments_parse two_reactors (ascii ''mychannel/42'') 0) =
      Some (Completed (CommentsOf 42) [])" .
  have reactions: "map_option (\<lambda>st. outcome_of (trace st))
      (reactions_parse two_reactors (ascii ''mychannel/42'') 0) =
      Some (Completed (ReactionsOf 42) [reaction_row [129513] bob])"
    by (simp add: two_reactors_run greeted_def)
  from members messages comments reactions show ?thesis
    by simp
qed

text \<open>
  C3: the reactions job never emits more records than the limit. The code breaks off
  the loop after the append, so with the limit 0 and a response that lists one user the
  job finishes with one record. (With a limit of 1 or more the loop keeps to the limit,
  see \<open>reaction_rows_bound\<close>.)
\<close>

theorem reactions_limit_zero_emits_a_record:
  "map_option (\<lambda>st. outcome_of (trace st))
     (reactions_parse one_reactor (ascii ''mychannel/42'') 0) =
     Some (Completed (ReactionsOf 42) [reaction_row [129513] bob])"
  by (simp add: one_reactor_run greeted_def)

text \<open>
  C4, as the specification has it: normalising a link twice gives what normalising it
  once gives, for every input. The code strips white space first and then one leading
  \<open>@\<close>, so a second run can strip more.
\<close>

theorem clean_link_not_idempotent:
  "clean_link (clean_link (ascii ''@@foo'')) \<noteq> clean_link (ascii ''@@foo'') \<and>
   clean_link (clean_link (ascii ''@ foo'')) \<noteq> clean_link (ascii ''@ foo'')"
  by (simp add: clean_link_at_at clean_link_at clean_link_at_space clean_link_space)
     (simp add: ascii_def)

text \<open>
  C4, amended: normalising a link twice gives what normalising it once gives exactly
  when the normalised link has no white space at its ends and no leading \<open>@\<close>.
\<close>

theorem clean_link_idempotent_on_handles:
  "clean_link (clean_link s) = clean_link s \<longleftrightarrow>
     strip (clean_link s) = clean_link s \<and> \<not> startswith (ascii ''@'') (clean_link s)"
  using clean_link_fixed[of "clean_link s"] clean_link_fixed_only[of "clean_link s"]
    clean_link_no_sep[of s]
  by blast

theorem clean_link_idempotent_on_handles_witness:
  "strip (clean_link (ascii ''https://t.me/foo/123?x=1'')) =
     clean_link (ascii ''https://t.me/foo/123?x=1'') \<and>
   \<not> startswith (ascii ''@'') (clean_link (ascii ''https://t.me/foo/123?x=1'')) \<and>
   clean_link (clean_link (ascii ''https://t.me/foo/123?x=1'')) =
     clean_link (ascii ''https://t.me/foo/123?x=1'')"
proof -
  have a: "strip (clean_link (ascii ''https://t.me/foo/123?x=1'')) =
      clean_link (ascii ''https://t.me/foo/123?x=1'')"
    by (simp add: clean_link_post_url) (simp add: string_defs)
  have b: "\<not> startswith (ascii ''@'') (clean_link (ascii ''https://t.me/foo/123?x=1''))"
    by (simp add: clean_link_post_url) (simp add: string_defs)
  from clean_link_idempotent_on_handles[of "ascii ''https://t.me/foo/123?x=1''"] a b
  show ?thesis by blast
qed

text \<open>
  C5, as the specification has it: the post link \<open>https://t.me/@foo/123?x=1\<close> is parsed
  to the channel part \<open>foo\<close> and the post number 123. The code takes the \<open>@\<close> off in
  \<open>_clean_link\<close> only; the two jobs that parse a post link keep it.
\<close>

theorem post_link_keeps_at_sign:
  "parse_post_link (ascii ''https://t.me/@foo/123?x=1'') \<noteq> PostLink (ascii ''foo'') 123"
  by (simp add: post_link_url) (simp add: ascii_def)

text \<open>
  C5, amended: the post link \<open>https://t.me/@foo/123?x=1\<close> is parsed to the channel part
  \<open>@foo\<close> and the post number 123: the URL prefix and the query are taken off, the \<open>@\<close>
  stays.
\<close>

theorem post_link_example:
  "parse_post_link (ascii ''https://t.me/@foo/123?x=1'') = PostLink (ascii ''@foo'') 123"
  by (rule post_link_url)



text \<open>
  C7: when the fetch of the admins fails the members job goes on with an empty set of
  admins. The code keeps what the iterator yielded before it raised: here it yields the
  user 7 and raises, the job finishes, and the record of the user 7 says that it is an
  admin. (When the iterator raises at once the set is empty, see \<open>admins_fail_at_once\<close>,
  and the flag is membership in the set in every case, see \<open>admin_flag_by_membership\<close>.)
\<close>

theorem admin_set_kept_after_failure:
  "iter_admins admins_break 0 = Iteration [bob] (Some (OtherError (ascii ''flood''))) \<and>
   map_option (\<lambda>st. outcome_of (trace st)) (members_parse admins_break (ascii ''club'') 10) =
     Some (Completed (EntityTitle (ascii ''Club'')) [member_row {7} bob]) \<and>
   map_of (member_row {7} bob) ''Is Admin'' = Some (StrV [1044, 1072])"
  by (simp add: admins_break_run greeted_def admin_flag_by_membership yes_no_def label_yes_def)
    (simp add: admins_break_def bob_def)

text \<open>
  C8: when the client is connected and the session is authorized, \<open>ensure_auth\<close> returns
  and has emitted no prompt for the phone, the code or the password; and when the user
  of the session is found it has returned \<open>True\<close>, having asked for the session and the
  user and emitted the one status line with the first name of the user.
\<close>

theorem authorized_session_short_circuits:
  assumes "ensure_client w st = (None, st1)"
    and "is_user_authorized w (now st1) = Inr True"
  shows "\<exists>r st'. ensure_auth w st = Some (r, st') \<and>
           filter prompt (trace st') = filter prompt (trace st) \<and>
           (\<forall>me. get_me w (Suc (now st1)) = Inr (Some me) \<longrightarrow>
              r = Inr True \<and>
              trace st' = trace st1 @
                [Call IsUserAuthorized, Call GetMe,
                 Signal (Progress (AuthorizedAs
                   (case first_name me of None \<Rightarrow> ascii ''None'' | Some n \<Rightarrow> n)))])"
proof -
  have p: "filter prompt (trace st1) = filter prompt (trace st)"
    using ensure_client_prompts[of w st] by (simp add: assms(1))
  show ?thesis
  proof (cases "get_me w (Suc (now st1))")
    case (Inl e)
    have "ensure_auth w st = Some (Inl e, called GetMe (called IsUserAuthorized st1))"
      by (rule ensure_auth_returned) (simp add: auth_attempt_def assms Inl Let_def)
    with p Inl show ?thesis
      by simp
  next
    case (Inr found)
    show ?thesis
    proof (cases found)
      case None
      have "ensure_auth w st =
          Some (Inl AttributeError, called GetMe (called IsUserAuthorized st1))"
        by (rule ensure_auth_returned) (simp add: auth_attempt_def assms Inr None Let_def)
      with p Inr None show ?thesis
        by simp
    next
      case (Some me)
      from ensure_auth_authorized[OF assms] Inr Some p show ?thesis
        by simp
    qed
  qed
qed

theorem authorized_session_short_circuits_witness:
  "ensure_client signed_in start =
     (None,
      \<lparr>trace = [Call NewClient, Call Connect], checks = 0, reads = [], client = Some True\<rparr>) \<and>
   is_user_authorized signed_in 2 = Inr True \<and> get_me signed_in 3 = Inr (Some bob) \<and>
   (\<exists>st'. ensure_auth signed_in start = Some (Inr True, st') \<and>
      trace st' =
        [Call NewClient, Call Connect, Call IsUserAuthorized, Call GetMe,
         Signal (Progress (AuthorizedAs (ascii ''Bob'')))] \<and>
      filter prompt (trace st') = [])"
proof -
  have a: "ensure_client signed_in start =
      (None,
       \<lparr>trace = [Call NewClient, Call Connect], checks = 0, reads = [], client = Some True\<rparr>)"
    by (simp add: ensure_client_def connect_client_def start_def called_def now_def)
  have b: "is_user_authorized signed_in
      (now \<lparr>trace = [Call NewClient, Call Connect], checks = 0, reads = [], client = Some True\<rparr>)
      = Inr True"
    by simp
  from authorized_session_short_circuits[OF a b] a
  show ?thesis
    by (auto simp: bob_def start_def now_def)
qed

text \<open>
  C9: \<open>get_user_status_text\<close> gives its own label for each status it knows (no status
  and the empty status share one), the label for "long ago" for a status of any other
  class, and never the empty text.
\<close>

theorem status_text_total:
  "get_user_status_text None = [1057, 1082, 1088, 1099, 1090, 1086] \<and>
   get_user_status_text (Some UserStatusOnline) = [1054, 1085, 1083, 1072, 1081, 1085] \<and>
   get_user_status_text (Some (UserStatusOffline was_online)) =
     [1054, 1092, 1092, 1083, 1072, 1081, 1085] \<and>
   get_user_status_text (Some UserStatusRecently) =
     [1053, 1077, 1076, 1072, 1074, 1085, 1086] \<and>
   get_user_status_text (Some UserStatusLastWeek) =
     [1041, 1099, 1083, 32, 1085, 1072, 32, 1101, 1090, 1086, 1081, 32,
      1085, 1077, 1076, 1077, 1083, 1077] \<and>
   get_user_status_text (Some UserStatusLastMonth) =
     [1041, 1099, 1083, 32, 1074, 32, 1101, 1090, 1086, 1084, 32,
      1084, 1077, 1089, 1103, 1094, 1077] \<and>
   get_user_status_text (Some UserStatusEmpty) = [1057, 1082, 1088, 1099, 1090, 1086] \<and>
   get_user_status_text (Some (UserStatusOther k)) = [1044, 1072, 1074, 1085, 1086] \<and>
   get_user_status_text s \<noteq> []"
proof -
  have "get_user_status_text s \<noteq> []"
    by (cases s rule: get_user_status_text.cases)
      (simp_all add: label_hidden_def label_online_def label_offline_def label_recently_def
        label_last_week_def label_last_month_def label_long_ago_def)
  then show ?thesis
    by (simp add: label_hidden_def label_online_def label_offline_def label_recently_def
        label_last_week_def label_last_month_def label_long_ago_def)
qed



end
